theory Spec2Isabelle
  imports Main "HOL-Library.Word" "HOL-Library.Signed_Division"
begin

unbundle bit_operations_syntax

section \<open>Go values used by \<open>cmd/gopherbadgeimg/main.go\<close>\<close>

text \<open>
  Go's \<open>int\<close> is taken to be 64 bits wide. Its values are the integers from \<open>minInt\<close>
  to \<open>maxInt\<close>; its \<open>*\<close> and \<open>+\<close> wrap around, which \<open>go_mul\<close> and \<open>go_add\<close> write
  out. Its \<open>/\<close> and \<open>%\<close> truncate towards zero; they are \<open>sdiv\<close> and \<open>smod\<close> on \<open>int\<close>.
  A \<open>byte\<close> is an 8-bit word, the \<open>uint32\<close> colour channels are 32-bit words.
\<close>

type_synonym byte = "8 word"

definition maxInt :: int where
  "maxInt = 2 ^ 63 - 1"

definition minInt :: int where
  "minInt = - (2 ^ 63)"

definition wrap :: "int \<Rightarrow> int" where
  "wrap n = (n + 2 ^ 63) mod 2 ^ 64 - 2 ^ 63"

definition go_mul :: "int \<Rightarrow> int \<Rightarrow> int" where
  "go_mul a b = wrap (a * b)"

definition go_add :: "int \<Rightarrow> int \<Rightarrow> int" where
  "go_add a b = wrap (a + b)"

text \<open>
  The ways in which \<open>ImgToBytes\<close> and \<open>PrintImg\<close> stop without returning: the
  run-time panics of \<open>image.NewRGBA\<close> (a rectangle whose pixel buffer length does not
  fit an \<open>int\<close>, or a pixel buffer that the runtime does not allocate), of \<open>make\<close> (a
  negative length, or a length that the runtime does not allocate), of the scaler
  and of the ditherer, and of an index outside a slice, and the \<open>log.Fatalf\<close> behind
  the failed type assertion on the dithered image.
\<close>

datatype abort =
    Panic_NewRGBA
  | Panic_Scale
  | Panic_makeslice
  | Panic_Dither
  | Panic_index
  | Fatal_dithered_type

subsection \<open>Colours and images\<close>

text \<open>
  \<open>color.RGBA\<close> of the standard library: four 8-bit channels. Its method \<open>RGBA()\<close>
  widens each channel \<open>c\<close> to 16 bits inside a \<open>uint32\<close> by \<open>r = uint32(c); r |= r << 8\<close>.
\<close>

record RGBA =
  chR :: byte
  chG :: byte
  chB :: byte
  chA :: byte

definition widen :: "byte \<Rightarrow> 32 word" where
  "widen c = (let r = ucast c in r OR push_bit 8 r)"

definition RGBA_method :: "RGBA \<Rightarrow> 32 word \<times> 32 word \<times> 32 word \<times> 32 word" where
  "RGBA_method c = (widen (chR c), widen (chG c), widen (chB c), widen (chA c))"

definition Black :: RGBA where
  "Black = \<lparr>chR = 0, chG = 0, chB = 0, chA = 255\<rparr>"

definition White :: RGBA where
  "White = \<lparr>chR = 255, chG = 255, chB = 255, chA = 255\<rparr>"

text \<open>
  An \<open>*image.RGBA\<close> is used by the program only through \<open>At(i, j)\<close>, so an image is
  the function that \<open>At\<close> computes.
\<close>

type_synonym image = "int \<Rightarrow> int \<Rightarrow> RGBA"

text \<open>\<open>d.Dither(dst)\<close> returns \<open>nil\<close>, an \<open>*image.RGBA\<close>, or an image of another type.\<close>

datatype dithered = Nil_image | RGBA_image image | Other_image

subsection \<open>The packing loop of \<open>ImgToBytes\<close> (lines 236 to 246)\<close>

text \<open>The test \<open>r+g+b == 0\<close> on the channels of \<open>dst.At(i, j).RGBA()\<close>, in \<open>uint32\<close>.\<close>

definition sum_is_zero :: "RGBA \<Rightarrow> bool" where
  "sum_is_zero c = (case RGBA_method c of (r, g, b, _) \<Rightarrow> r + g + b = 0)"

text \<open>
  Line 243: \<open>imageBits[(i*y+j)/8] = imageBits[(i*y+j)/8] | (1 << uint(7-(i*y+j)%8))\<close>.
  The flat index \<open>i*y+j\<close> is computed in \<open>int\<close>, with wrap-around. An index outside
  the slice panics. The shift count \<open>7 - (i*y+j)%8\<close> is never negative, since Go's
  remainder lies strictly between \<open>-8\<close> and \<open>8\<close>; a count of 8 or more shifts the one
  out of the byte, as \<open>push_bit\<close> does.
\<close>

definition set_bit_at :: "int \<Rightarrow> int \<Rightarrow> int \<Rightarrow> byte list \<Rightarrow> abort + byte list" where
  "set_bit_at y i j imageBits =
     (let n = go_add (go_mul i y) j; k = n sdiv 8 in
      if 0 \<le> k \<and> k < int (length imageBits)
      then Inr (imageBits[nat k :=
                  (imageBits ! nat k) OR push_bit (nat (7 - n smod 8)) 1])
      else Inl Panic_index)"

text \<open>The body of the inner loop, lines 238 to 244.\<close>

definition pack_pixel :: "int \<Rightarrow> image \<Rightarrow> int \<Rightarrow> int \<Rightarrow> byte list \<Rightarrow> abort + byte list" where
  "pack_pixel y dst i j imageBits =
     (if sum_is_zero (dst i j) then set_bit_at y i j imageBits else Inr imageBits)"

text \<open>
  \<open>for j := 0; j < y; j++\<close>, entered at \<open>j\<close>. The counter stays below \<open>y\<close>, which
  is an \<open>int\<close>, so \<open>j++\<close> does not wrap; the same holds for the other three loops.
\<close>

function pack_rows :: "int \<Rightarrow> image \<Rightarrow> int \<Rightarrow> int \<Rightarrow> byte list \<Rightarrow> abort + byte list" where
  "pack_rows y dst i j imageBits =
     (if j < y
      then (case pack_pixel y dst i j imageBits of
              Inl e \<Rightarrow> Inl e
            | Inr imageBits' \<Rightarrow> pack_rows y dst i (j + 1) imageBits')
      else Inr imageBits)"
  by pat_completeness auto
termination
  by (relation "measure (\<lambda>(y, dst, i, j, imageBits). nat (y - j))") auto

declare pack_rows.simps [simp del]

text \<open>\<open>for i := 0; i < x; i++\<close>, entered at \<open>i\<close>.\<close>

function pack_cols :: "int \<Rightarrow> int \<Rightarrow> image \<Rightarrow> int \<Rightarrow> byte list \<Rightarrow> abort + byte list" where
  "pack_cols x y dst i imageBits =
     (if i < x
      then (case pack_rows y dst i 0 imageBits of
              Inl e \<Rightarrow> Inl e
            | Inr imageBits' \<Rightarrow> pack_cols x y dst (i + 1) imageBits')
      else Inr imageBits)"
  by pat_completeness auto
termination
  by (relation "measure (\<lambda>(x, y, dst, i, imageBits). nat (x - i))") auto

declare pack_cols.simps [simp del]

subsection \<open>\<open>PrintImg\<close> (lines 285 to 298)\<close>

definition star :: char where
  "star = CHR ''*''"

definition space :: char where
  "space = CHR '' ''"

definition newline :: char where
  "newline = CHR 0x0A"

definition tab :: char where
  "tab = CHR 0x09"

text \<open>
  Lines 288 to 294: the character printed for row \<open>i\<close> and column \<open>j\<close>, or the
  panic of the index expression \<open>imgBits[offset/8]\<close>. The offset \<open>j*y + i\<close> is
  computed in \<open>int\<close>, with wrap-around.
\<close>

definition PrintImg_cell :: "int \<Rightarrow> int \<Rightarrow> int \<Rightarrow> byte list \<Rightarrow> abort + char" where
  "PrintImg_cell y i j imgBits =
     (let offset = go_add (go_mul j y) i; k = offset sdiv 8 in
      if 0 \<le> k \<and> k < int (length imgBits)
      then (let b = (imgBits ! nat k) AND push_bit (nat (7 - offset smod 8)) 1
            in Inr (if b \<noteq> 0 then star else space))
      else Inl Panic_index)"

text \<open>
  \<open>for j := 0; j < x; j++\<close>, entered at \<open>j\<close>. The text written to the diagnostic
  stream so far is threaded through; a panic keeps what was written before it.
\<close>

function PrintImg_cols ::
  "int \<Rightarrow> int \<Rightarrow> int \<Rightarrow> int \<Rightarrow> byte list \<Rightarrow> string \<Rightarrow> string \<times> abort option" where
  "PrintImg_cols x y i j imgBits out =
     (if j < x
      then (case PrintImg_cell y i j imgBits of
              Inl a \<Rightarrow> (out, Some a)
            | Inr c \<Rightarrow> PrintImg_cols x y i (j + 1) imgBits (out @ [c]))
      else (out, None))"
  by pat_completeness auto
termination
  by (relation "measure (\<lambda>(x, y, i, j, imgBits, out). nat (x - j))") auto

declare PrintImg_cols.simps [simp del]

text \<open>\<open>for i := 0; i < y; i++\<close>, entered at \<open>i\<close>.\<close>

function PrintImg_rows ::
  "int \<Rightarrow> int \<Rightarrow> int \<Rightarrow> byte list \<Rightarrow> string \<Rightarrow> string \<times> abort option" where
  "PrintImg_rows x y i imgBits out =
     (if i < y
      then (case PrintImg_cols x y i 0 imgBits out of
              (out', Some a) \<Rightarrow> (out', Some a)
            | (out', None) \<Rightarrow> PrintImg_rows x y (i + 1) imgBits (out' @ [newline]))
      else (out, None))"
  by pat_completeness auto
termination
  by (relation "measure (\<lambda>(x, y, i, imgBits, out). nat (y - i))") auto

declare PrintImg_rows.simps [simp del]

definition PrintImg :: "int \<Rightarrow> int \<Rightarrow> byte list \<Rightarrow> string \<times> abort option" where
  "PrintImg x y imgBits = PrintImg_rows x y 0 imgBits []"

section \<open>\<open>ParseRatio\<close> (lines 250 to 265)\<close>

text \<open>
  \<open>strings.ToLower\<close> on the bytes of the string: the ASCII capitals are mapped to
  their small letters. (On runes beyond ASCII the library may change bytes too, but
  never into or out of \<open>x\<close>, a sign or a digit, which is all \<open>ParseRatio\<close> looks at.)
\<close>

definition lower_char :: "char \<Rightarrow> char" where
  "lower_char c =
     (let n = (of_char c :: nat) in if 65 \<le> n \<and> n \<le> 90 then char_of (n + 32) else c)"

definition ToLower :: "string \<Rightarrow> string" where
  "ToLower s = map lower_char s"

text \<open>
  \<open>strings.Split(s, sep)\<close> for a separator of one byte: the fields between the
  occurrences of the separator, one more than there are occurrences.
\<close>

fun Split :: "string \<Rightarrow> char \<Rightarrow> string list" where
  "Split [] sep = [[]]"
| "Split (c # s) sep =
     (if c = sep then [] # Split s sep
      else (case Split s sep of
              [] \<Rightarrow> [[c]]
            | f # fs \<Rightarrow> (c # f) # fs))"

text \<open>
  \<open>strconv.Atoi\<close> of the standard library. After an optional sign the characters are
  read from left to right, as \<open>ParseUint\<close> does in base 10 for 64 bits: a character
  that is not a decimal digit is a syntax error, and a digit that takes the value
  read so far beyond \<open>2 ^ 64 - 1\<close> is a range error, whichever comes first. No digit at
  all is a syntax error. At the end a value outside \<open>int\<close> is a range error.
\<close>

datatype NumError = ErrSyntax | ErrRange

definition is_digit :: "char \<Rightarrow> bool" where
  "is_digit c = (let n = (of_char c :: nat) in 48 \<le> n \<and> n \<le> 57)"

definition maxUint64 :: int where
  "maxUint64 = 2 ^ 64 - 1"

fun ParseUint_loop :: "int \<Rightarrow> string \<Rightarrow> NumError + int" where
  "ParseUint_loop n [] = Inr n"
| "ParseUint_loop n (c # s) =
     (if is_digit c
      then (if maxUint64 div 10 + 1 \<le> n then Inl ErrRange
            else (let n1 = n * 10 + (int (of_char c) - 48)
                  in if maxUint64 < n1 then Inl ErrRange else ParseUint_loop n1 s))
      else Inl ErrSyntax)"

definition Atoi :: "string \<Rightarrow> NumError + int" where
  "Atoi s =
     (let neg = (s \<noteq> [] \<and> hd s = CHR ''-'');
          ds = (if s \<noteq> [] \<and> (hd s = CHR ''-'' \<or> hd s = CHR ''+'') then tl s else s)
      in if ds = [] then Inl ErrSyntax
         else (case ParseUint_loop 0 ds of
                 Inl err \<Rightarrow> Inl err
               | Inr un \<Rightarrow>
                   (let v = (if neg then - un else un)
                    in if v < minInt \<or> maxInt < v then Inl ErrRange else Inr v)))"

text \<open>
  The three errors of \<open>ParseRatio\<close>: the \<open>errors.New\<close> of line 254, and the two
  \<open>errors.Join\<close> of lines 258 and 262 around the error of \<open>Atoi\<close>.
\<close>

datatype ratio_error =
    Invalid_ratio_string
  | X_coordinate NumError
  | Y_coordinate NumError

definition ParseRatio :: "string \<Rightarrow> ratio_error + (int \<times> int)" where
  "ParseRatio rstr =
     (let rstr = ToLower rstr;
          pixels = Split rstr (CHR ''x'')
      in if length pixels \<noteq> 2 then Inl Invalid_ratio_string
         else (case Atoi (pixels ! 0) of
                 Inl err \<Rightarrow> Inl (X_coordinate err)
               | Inr x \<Rightarrow>
                   (case Atoi (pixels ! 0) of
                      Inl err \<Rightarrow> Inl (Y_coordinate err)
                    | Inr y \<Rightarrow> Inr (x, y))))"

section \<open>The process and its environment\<close>

text \<open>
  What a run of \<open>main\<close> reads from outside the program: the command line after
  \<open>flag.Parse\<close> (the four flag variables, \<open>flag.Args()\<close> and \<open>os.Args[0]\<close>), and the
  answers of the libraries it calls. \<open>os_Stat\<close> and \<open>os_Create\<close> tell whether the call
  succeeds on a file name; \<open>os_Open\<close> and \<open>image_Decode\<close> give a file or an image, or
  fail; \<open>alloc_ok\<close> tells whether the runtime allocates a slice of so many bytes
  (the length is within its limit and the memory is there); \<open>Scale\<close> is the image
  that \<open>draw.NearestNeighbor.Scale\<close> leaves in the new destination made for \<open>x\<close> and
  \<open>y\<close>, and \<open>Dither\<close> gives that destination as \<open>d.Dither\<close> leaves it together with
  the image it returns, each \<open>None\<close> where the library panics; \<open>base64_encode\<close> is
  \<open>base64.StdEncoding.EncodeToString\<close>; \<open>failing_write\<close> is the number of the
  \<open>Write\<close> call on the output file that fails, if one does, counted from 0.
\<close>

record ('f, 'img) env =
  Args0 :: string
  disableDithering :: bool
  outMode :: string
  show_flag :: bool
  ratio :: string
  Args :: "string list"
  os_Stat :: "string \<Rightarrow> bool"
  os_Open :: "string \<Rightarrow> 'f option"
  image_Decode :: "'f \<Rightarrow> 'img option"
  alloc_ok :: "int \<Rightarrow> bool"
  Scale :: "int \<Rightarrow> int \<Rightarrow> 'img \<Rightarrow> image option"
  Dither :: "int \<Rightarrow> int \<Rightarrow> image \<Rightarrow> (image \<times> dithered) option"
  base64_encode :: "byte list \<Rightarrow> string"
  os_Create :: "string \<Rightarrow> bool"
  failing_write :: "nat option"

text \<open>
  What a run does to the outside, in order. \<open>Call_ImgToBytes\<close> marks the call of
  line 100, where resampling starts; the other events are the lines of the logger,
  the two usage texts, the operations on the output file, and the text printed on
  standard output and on the diagnostic stream.
\<close>

datatype log_line =
    Log_args "string list"
  | Log_stat string
  | Log_load
  | Log_no_ratio
  | Log_ratio ratio_error
  | Log_height
  | Log_dithered_type
  | Log_write
  | Log_outmode string

datatype event =
    Log log_line
  | Usage_of_main
  | Usage_text
  | Call_ImgToBytes int int
  | Runtime_panic abort
  | Create string
  | Write string "byte list"
  | Close string
  | Stdout string
  | Stderr string

section \<open>\<open>ImgToBytes\<close> (lines 194 to 248)\<close>

text \<open>
  \<open>make\<close> of a slice of \<open>n\<close> bytes panics on a negative length and where the runtime
  does not allocate the slice.
\<close>

definition makeslice_panics :: "('f, 'img) env \<Rightarrow> int \<Rightarrow> bool" where
  "makeslice_panics e n = (if n < 0 then True else if alloc_ok e n then False else True)"

text \<open>
  \<open>image.Rect(0, 0, x, y)\<close> swaps the corners where needed, so the rectangle is
  \<open>\<bar>x\<bar>\<close> wide and \<open>\<bar>y\<bar>\<close> high, computed in \<open>int\<close>. \<open>image.NewRGBA\<close> panics unless
  the product of 4, the width and the height, taken from left to right, is found
  without a negative factor, below \<open>2 ^ 64\<close> at each step and below \<open>2 ^ 63\<close> at the
  end; it then makes the pixel buffer of that many bytes.
\<close>

definition extent :: "int \<Rightarrow> int" where
  "extent v = (if v = minInt then minInt else \<bar>v\<bar>)"

definition mul3NonNeg :: "int \<Rightarrow> int \<Rightarrow> int \<Rightarrow> int" where
  "mul3NonNeg a b c =
     (if a < 0 \<or> b < 0 \<or> c < 0 then - 1
      else if 2 ^ 64 \<le> a * b then - 1
      else if 2 ^ 64 \<le> a * b * c then - 1
      else if 2 ^ 63 \<le> a * b * c then - 1
      else a * b * c)"

definition NewRGBA_panics :: "('f, 'img) env \<Rightarrow> int \<Rightarrow> int \<Rightarrow> bool" where
  "NewRGBA_panics e x y =
     (if mul3NonNeg 4 (extent x) (extent y) < 0 then True
      else makeslice_panics e (mul3NonNeg 4 (extent x) (extent y)))"

text \<open>
  Lines 213 to 232: the image that is packed. The global \<open>disableDithering\<close> is read
  from the environment.
\<close>

definition dither_step :: "('f, 'img) env \<Rightarrow> int \<Rightarrow> int \<Rightarrow> image \<Rightarrow> abort + image" where
  "dither_step e x y dst =
     (if disableDithering e then Inr dst
      else (case Dither e x y dst of
              None \<Rightarrow> Inl Panic_Dither
            | Some (dst', Nil_image) \<Rightarrow> Inr dst'
            | Some (dst', RGBA_image d) \<Rightarrow> Inr d
            | Some (dst', Other_image) \<Rightarrow> Inl Fatal_dithered_type))"

definition ImgToBytes :: "('f, 'img) env \<Rightarrow> int \<Rightarrow> int \<Rightarrow> 'img \<Rightarrow> abort + byte list" where
  "ImgToBytes e x y src =
     (if NewRGBA_panics e x y then Inl Panic_NewRGBA
      else (case Scale e x y src of
              None \<Rightarrow> Inl Panic_Scale
            | Some dst \<Rightarrow>
                if makeslice_panics e (go_mul x y sdiv 8) then Inl Panic_makeslice
                else (let imageBits = replicate (nat (go_mul x y sdiv 8)) (0 :: byte) in
                      case dither_step e x y dst of
                        Inl a \<Rightarrow> Inl a
                      | Inr dst \<Rightarrow> pack_cols x y dst 0 imageBits)))"

section \<open>The output emitters\<close>

definition EncodeToString :: "('f, 'img) env \<Rightarrow> byte list \<Rightarrow> string" where
  "EncodeToString e imageBits = base64_encode e imageBits"

text \<open>The conversion \<open>[]byte(s)\<close> of a string.\<close>

definition bytes :: "string \<Rightarrow> byte list" where
  "bytes s = map (\<lambda>c. word_of_nat (of_char c)) s"

text \<open>
  \<open>outf.Write(data)\<close> on the file \<open>filename\<close>: the state is the events so far and the
  number of \<open>Write\<close> calls made; the flag tells whether the error is \<open>nil\<close>.
\<close>

definition outf_Write ::
  "('f, 'img) env \<Rightarrow> string \<Rightarrow> byte list \<Rightarrow> event list \<times> nat \<Rightarrow> (event list \<times> nat) \<times> bool" where
  "outf_Write e filename data s =
     (case s of (evs, n) \<Rightarrow>
        if failing_write e = Some n then ((evs, Suc n), False)
        else ((evs @ [Write filename data], Suc n), True))"

text \<open>\<open>WriteToBinFile\<close>, lines 137 to 145. The deferred \<open>Close\<close> runs on return.\<close>

definition WriteToBinFile :: "('f, 'img) env \<Rightarrow> string \<Rightarrow> byte list \<Rightarrow> event list \<times> bool" where
  "WriteToBinFile e filename imageBits =
     (if \<not> os_Create e filename then ([], False)
      else (case outf_Write e filename imageBits ([Create filename], 0) of
              ((evs, n), ok) \<Rightarrow> (evs @ [Close filename], ok)))"

text \<open>\<open>fmt.Sprintf("0x%02X, ", b)\<close>.\<close>

definition hex_digit :: "nat \<Rightarrow> char" where
  "hex_digit n = ''0123456789ABCDEF'' ! (n mod 16)"

definition Sprintf_hex :: "byte \<Rightarrow> string" where
  "Sprintf_hex b = ''0x'' @ [hex_digit (unat b div 16), hex_digit (unat b mod 16)] @ '', ''"

text \<open>The loop of lines 163 to 175 over the bytes from index \<open>i\<close> on.\<close>

fun WriteToGoFile_loop ::
  "('f, 'img) env \<Rightarrow> string \<Rightarrow> nat \<Rightarrow> byte list \<Rightarrow> event list \<times> nat \<Rightarrow> (event list \<times> nat) \<times> bool" where
  "WriteToGoFile_loop e filename i [] s = (s, True)"
| "WriteToGoFile_loop e filename i (b # bs) s =
     (case (if i mod 32 = 0 then outf_Write e filename (bytes [newline, tab]) s else (s, True)) of
        (s1, False) \<Rightarrow> (s1, False)
      | (s1, True) \<Rightarrow>
          (case outf_Write e filename (bytes (Sprintf_hex b)) s1 of
             (s2, False) \<Rightarrow> (s2, False)
           | (s2, True) \<Rightarrow> WriteToGoFile_loop e filename (Suc i) bs s2))"

text \<open>\<open>WriteToGoFile\<close>, lines 148 to 178.\<close>

definition WriteToGoFile ::
  "('f, 'img) env \<Rightarrow> string \<Rightarrow> string \<Rightarrow> byte list \<Rightarrow> event list \<times> bool" where
  "WriteToGoFile e filename variablename imageBits =
     (if \<not> os_Create e filename then ([], False)
      else (case outf_Write e filename
                   (bytes (''// Code generated by '' @ Args0 e @ '' DO NOT EDIT.'' @
                           [newline, newline] @ ''package main'' @ [newline, newline] @
                           ''var r'' @ variablename @ '' = []byte{''))
                   ([Create filename], 0) of
              ((evs, n), False) \<Rightarrow> (evs @ [Close filename], False)
            | (s1, True) \<Rightarrow>
                (case WriteToGoFile_loop e filename 0 imageBits s1 of
                   ((evs, n), False) \<Rightarrow> (evs @ [Close filename], False)
                 | (s2, True) \<Rightarrow>
                     (case outf_Write e filename (bytes [newline, CHR ''}'', newline]) s2 of
                        ((evs, n), ok) \<Rightarrow> (evs @ [Close filename], ok)))))"

section \<open>\<open>main\<close> (lines 31 to 124)\<close>

text \<open>\<open>LoadImg\<close>, lines 181 to 191; \<open>None\<close> is a non-nil error.\<close>

definition LoadImg :: "('f, 'img) env \<Rightarrow> string \<Rightarrow> 'img option" where
  "LoadImg e infile =
     (case os_Open e infile of
        None \<Rightarrow> None
      | Some f \<Rightarrow> (case image_Decode e f of None \<Rightarrow> None | Some src \<Rightarrow> Some src))"

text \<open>
  A run ends with the events it caused and its exit status: 0 on return from
  \<open>main\<close>, 1 from \<open>os.Exit(1)\<close>, also inside \<open>Usage\<close> and \<open>log.Fatalf\<close>, and 2 from a
  run-time panic.
\<close>

type_synonym outcome = "event list \<times> nat"

text \<open>\<open>Usage\<close>, lines 270 to 280, after the events \<open>evs\<close>.\<close>

definition Usage :: "event list \<Rightarrow> outcome" where
  "Usage evs = (evs @ [Usage_text], 1)"

text \<open>The switch on \<open>ratio\<close>, lines 70 to 99: the end of the run, or \<open>x\<close> and \<open>y\<close>.\<close>

definition ratio_switch :: "string \<Rightarrow> outcome + (int \<times> int)" where
  "ratio_switch r =
     (if r = ''profile'' then Inr (120, 128)
      else if r = ''splash'' then Inr (246, 128)
      else if r = [] then Inl (Usage [Log Log_no_ratio])
      else (case ParseRatio r of
              Inl err \<Rightarrow> Inl (Usage [Log (Log_ratio err)])
            | Inr (x, y) \<Rightarrow>
                if y smod 8 \<noteq> 0 then Inl ([Log Log_height], 1) else Inr (x, y)))"

text \<open>The switch on \<open>outMode\<close>, lines 101 to 120: the end of the run, or its events.\<close>

definition outMode_switch :: "('f, 'img) env \<Rightarrow> byte list \<Rightarrow> outcome + event list" where
  "outMode_switch e imgBits =
     (if outMode e = ''rice'' then
        (case WriteToGoFile e (ratio e @ ''-generated.go'') (ratio e) imgBits of
           (evs, False) \<Rightarrow> Inl (evs @ [Log Log_write], 1)
         | (evs, True) \<Rightarrow> Inr evs)
      else if outMode e = ''bin'' then
        (case WriteToBinFile e (ratio e @ ''.bin'') imgBits of
           (evs, False) \<Rightarrow> Inl (evs @ [Log Log_write], 1)
         | (evs, True) \<Rightarrow> Inr evs)
      else if outMode e = ''base64'' then Inr [Stdout (EncodeToString e imgBits @ [newline])]
      else if outMode e = ''none'' then Inr []
      else Inl (Usage [Log (Log_outmode (outMode e))]))"

text \<open>How a call of \<open>ImgToBytes\<close> or \<open>PrintImg\<close> that does not return ends the run.\<close>

definition abort_outcome :: "event list \<Rightarrow> abort \<Rightarrow> outcome" where
  "abort_outcome evs a =
     (if a = Fatal_dithered_type then (evs @ [Log Log_dithered_type], 1)
      else (evs @ [Runtime_panic a], 2))"

definition main :: "('f, 'img) env \<Rightarrow> outcome" where
  "main e =
     (if length (Args e) \<noteq> 1 then ([Log (Log_args (Args e)), Usage_of_main], 1)
      else (let infile = Args e ! 0 in
        if \<not> os_Stat e infile then ([Log (Log_stat infile)], 1)
        else (case LoadImg e infile of
                None \<Rightarrow> ([Log Log_load], 1)
              | Some sourceImage \<Rightarrow>
         (case ratio_switch (ratio e) of
            Inl stop \<Rightarrow> stop
          | Inr (x, y) \<Rightarrow>
           (case ImgToBytes e x y sourceImage of
              Inl a \<Rightarrow> abort_outcome [Call_ImgToBytes x y] a
            | Inr imgBits \<Rightarrow>
             (case outMode_switch e imgBits of
                Inl (evs, status) \<Rightarrow> (Call_ImgToBytes x y # evs, status)
              | Inr evs \<Rightarrow>
                  if show_flag e
                  then (case PrintImg x y imgBits of
                          (out, None) \<Rightarrow> (Call_ImgToBytes x y # evs @ [Stderr out], 0)
                        | (out, Some a) \<Rightarrow>
                            abort_outcome (Call_ImgToBytes x y # evs @ [Stderr out]) a)
                  else (Call_ImgToBytes x y # evs, 0)))))))"

section \<open>Notions used in the statements\<close>

text \<open>
  The pixel at column \<open>col\<close> and row \<open>row\<close> of an image of height \<open>y\<close> is black and
  its flat index \<open>col * y + row\<close> addresses bit \<open>b\<close> of byte \<open>k\<close>.
\<close>

definition touched :: "int \<Rightarrow> image \<Rightarrow> int \<Rightarrow> int \<Rightarrow> nat \<Rightarrow> nat \<Rightarrow> bool" where
  "touched y dst col row k b =
     (sum_is_zero (dst col row) \<and> int k = (col * y + row) div 8 \<and>
      int b = 7 - (col * y + row) mod 8)"

text \<open>
  The on/off pattern of an \<open>x\<close> by \<open>y\<close> image written out as text, row by row: a star
  for a black pixel, a space for any other, a line feed after each row.
\<close>

definition pattern_text :: "int \<Rightarrow> int \<Rightarrow> image \<Rightarrow> string" where
  "pattern_text x y dst =
     concat (map (\<lambda>row. map (\<lambda>col. if sum_is_zero (dst col row) then star else space)
                               [0..x - 1] @ [newline])
                 [0..y - 1])"

text \<open>
  Events that only report: the lines of the logger and the usage texts. Events that
  put something out: the operations on the output file and the text on standard
  output and on the diagnostic stream.
\<close>

fun is_report :: "event \<Rightarrow> bool" where
  "is_report (Log _) = True"
| "is_report Usage_of_main = True"
| "is_report Usage_text = True"
| "is_report _ = False"

fun is_output :: "event \<Rightarrow> bool" where
  "is_output (Create _) = True"
| "is_output (Write _ _) = True"
| "is_output (Close _) = True"
| "is_output (Stdout _) = True"
| "is_output (Stderr _) = True"
| "is_output _ = False"

fun no_output :: "event list \<Rightarrow> bool" where
  "no_output [] = True"
| "no_output (ev # evs) = (if is_output ev then False else no_output evs)"

text \<open>
  A sample run: an image with one black pixel, in column 0 and row 3, and an all-white
  image; an environment where every call of the libraries succeeds, slices of up to
  \<open>2 ^ 48\<close> bytes are allocated, scaling keeps the image as it is and dithering is
  switched off.
\<close>

definition one_black :: image where
  "one_black = (\<lambda>i j. if i = 0 \<and> j = 3 then Black else White)"

definition all_white :: image where
  "all_white = (\<lambda>i j. White)"

definition sample_env :: "(unit, image) env" where
  "sample_env =
     \<lparr>Args0 = ''gopherbadgeimg'', disableDithering = True, outMode = ''none'',
      show_flag = True, ratio = ''8x8'', Args = [''in.png''],
      os_Stat = (\<lambda>name. True), os_Open = (\<lambda>name. Some ()),
      image_Decode = (\<lambda>f. Some one_black), alloc_ok = (\<lambda>n. n \<le> 2 ^ 48),
      Scale = (\<lambda>x y src. Some src),
      Dither = (\<lambda>x y dst. Some (dst, Nil_image)), base64_encode = (\<lambda>bs. []),
      os_Create = (\<lambda>name. True), failing_write = None\<rparr>"

section \<open>Auxiliary facts\<close>

lemma go_div_nonneg: "0 \<le> a \<Longrightarrow> a sdiv 8 = a div (8::int)"
  by (simp add: signed_divide_int_def sgn_if)

lemma go_mod_nonneg: "0 \<le> a \<Longrightarrow> a smod 8 = a mod (8::int)"
  by (simp add: signed_modulo_int_def sgn_if)

lemma wrap_id: "minInt \<le> n \<Longrightarrow> n \<le> maxInt \<Longrightarrow> wrap n = n"
  by (simp add: wrap_def minInt_def maxInt_def)

lemma flat_index_plain:
  assumes "0 \<le> i * y" "0 \<le> j" "i * y + j \<le> maxInt"
  shows "go_add (go_mul i y) j = i * y + j"
proof -
  have "go_mul i y = i * y"
    unfolding go_mul_def using assms by (intro wrap_id) (simp_all add: minInt_def)
  then show ?thesis
    unfolding go_add_def using assms by (simp add: wrap_id minInt_def)
qed

lemma pixel_index_plain:
  assumes "0 \<le> y" "x * y \<le> maxInt" "0 \<le> col" "col < x" "0 \<le> row" "row < y"
  shows "go_add (go_mul col y) row = col * y + row"
proof -
  have "(col + 1) * y \<le> x * y" using assms by (intro mult_right_mono) auto
  then have "col * y + row \<le> maxInt" using assms(2,6) by (simp add: algebra_simps)
  then show ?thesis using assms by (intro flat_index_plain) simp_all
qed

lemma bit_one_shift: "n < 8 \<Longrightarrow> bit (push_bit n (1::byte)) b \<longleftrightarrow> b = n"
  by (auto simp add: bit_simps)

lemma ucast_byte_zero:
  assumes "(ucast (c::byte) :: 32 word) = 0"
  shows "c = 0"
proof (rule bit_word_eqI)
  fix n assume n: "n < LENGTH(8)"
  from assms have "bit (ucast c :: 32 word) n = bit (0 :: 32 word) n" by simp
  with n show "bit c n = bit (0::byte) n" by (simp add: bit_ucast_iff)
qed

lemma widen_zero: "widen c = 0 \<longleftrightarrow> c = 0"
proof
  assume "widen c = 0"
  then have "(ucast c :: 32 word) = 0" by (simp add: widen_def Let_def or_eq_0_iff)
  then show "c = 0" by (rule ucast_byte_zero)
qed (simp add: widen_def)

lemma widen_take: "take_bit 16 (widen c) = widen c"
  by (rule bit_word_eqI) (auto simp: widen_def Let_def bit_simps dest: bit_imp_le_length)

lemma widen_bound: "unat (widen c) < 65536"
proof -
  have "unat (take_bit 16 (widen c)) < 2 ^ 16"
    by (metis take_bit_nat_less_exp unsigned_take_bit_eq)
  then show ?thesis by (simp add: widen_take)
qed

lemma sum_zero: 
  fixes a b c :: "32 word"
  assumes "unat a < 65536" "unat b < 65536" "unat c < 65536"
  shows "(a + b + c = 0) \<longleftrightarrow> a = 0 \<and> b = 0 \<and> c = 0"
proof -
  have 1: "unat (a + b) = unat a + unat b"
    using assms by (simp add: unat_add_lem[THEN iffD1])
  have 2: "unat (a + b + c) = unat a + unat b + unat c"
    using assms 1 by (simp add: unat_add_lem[THEN iffD1])
  have "a + b + c = 0 \<longleftrightarrow> unat (a + b + c) = 0"
    by (simp add: unat_eq_0)
  then show ?thesis using 2 by (auto simp: unat_eq_0)
qed

lemma sum_is_zero_iff: "sum_is_zero c \<longleftrightarrow> chR c = 0 \<and> chG c = 0 \<and> chB c = 0"
  by (simp add: sum_is_zero_def RGBA_method_def sum_zero widen_bound widen_zero)

lemma shift_count: "(int b = 7 - n mod 8) = (b = nat (7 - n mod 8))"
proof -
  have "n mod 8 < 8" by simp
  then have "0 \<le> 7 - n mod 8" by linarith
  then show ?thesis by (auto simp: nat_eq_iff)
qed

lemma bit_one_shift': "n < 8 \<Longrightarrow> bit (2 ^ n :: byte) b \<longleftrightarrow> b = n"
  using bit_one_shift[of n b] by simp

lemma set_bit_at_ok:
  assumes "0 \<le> i * y + j" "i * y + j < 8 * int (length bits)"
    and "go_add (go_mul i y) j = i * y + j"
  shows "\<exists>bits'. set_bit_at y i j bits = Inr bits' \<and> length bits' = length bits \<and>
     (\<forall>k b. k < length bits \<longrightarrow>
        (bit (bits' ! k) b \<longleftrightarrow> bit (bits ! k) b \<or>
           (int k = (i * y + j) div 8 \<and> int b = 7 - (i * y + j) mod 8)))"
proof -
  define n where "n = i * y + j"
  define K where "K = nat (n div 8)"
  define B where "B = nat (7 - n mod 8)"
  have k: "0 \<le> n div 8" "n div 8 < int (length bits)" "K < length bits"
    using assms(1,2) by (auto simp: n_def K_def)
  have b: "B < 8" by (simp add: B_def)
  have eq1: "\<And>k. (int k = n div 8) = (k = K)" using k by (auto simp: K_def)
  have eq2: "\<And>b. (int b = 7 - n mod 8) = (b = B)"
    unfolding B_def by (rule shift_count)
  have "set_bit_at y i j bits = Inr (bits[K := (bits ! K) OR push_bit B 1])"
    using k assms(1)
    by (simp add: set_bit_at_def assms(3) Let_def go_div_nonneg go_mod_nonneg n_def K_def
        B_def)
  moreover have "\<forall>k b. k < length bits \<longrightarrow>
        (bit ((bits[K := (bits ! K) OR push_bit B 1]) ! k) b \<longleftrightarrow> bit (bits ! k) b \<or>
           (k = K \<and> b = B))"
    using b k(3) by (auto simp: nth_list_update bit_or_iff bit_one_shift')
  ultimately show ?thesis
    unfolding eq1[unfolded n_def] eq2[unfolded n_def] by simp
qed

lemma pack_pixel_ok:
  assumes "0 \<le> i * y + j" "i * y + j < 8 * int (length bits)"
    and "go_add (go_mul i y) j = i * y + j"
  shows "\<exists>bits'. pack_pixel y dst i j bits = Inr bits' \<and> length bits' = length bits \<and>
     (\<forall>k b. k < length bits \<longrightarrow>
        (bit (bits' ! k) b \<longleftrightarrow> bit (bits ! k) b \<or> touched y dst i j k b))"
proof (cases "sum_is_zero (dst i j)")
  case True
  with set_bit_at_ok[OF assms] show ?thesis
    by (simp add: pack_pixel_def touched_def)
next
  case False
  then show ?thesis by (simp add: pack_pixel_def touched_def)
qed

lemma pack_rows_ok:
  assumes "0 \<le> i" "0 \<le> j" "j < y \<longrightarrow> i * y + y \<le> 8 * int (length bits)"
    and "8 * int (length bits) \<le> maxInt"
  shows "\<exists>bits'. pack_rows y dst i j bits = Inr bits' \<and> length bits' = length bits \<and>
     (\<forall>k b. k < length bits \<longrightarrow>
        (bit (bits' ! k) b \<longleftrightarrow> bit (bits ! k) b \<or>
           (\<exists>row. j \<le> row \<and> row < y \<and> touched y dst i row k b)))"
  using assms
proof (induction y dst i j bits rule: pack_rows.induct)
  case (1 y dst i j bits)
  show ?case
  proof (cases "j < y")
    case False
    then show ?thesis by (subst pack_rows.simps) auto
  next
    case True
    have nn: "0 \<le> i * y + j" using "1.prems" True by simp
    have lt: "i * y + j < 8 * int (length bits)" using "1.prems" True by simp
    have wr: "go_add (go_mul i y) j = i * y + j"
      using "1.prems" True lt by (intro flat_index_plain) simp_all
    from pack_pixel_ok[OF nn lt wr, of dst] obtain bits1 where
      p: "pack_pixel y dst i j bits = Inr bits1" and l1: "length bits1 = length bits"
      and b1: "\<And>k b. k < length bits \<Longrightarrow>
        (bit (bits1 ! k) b \<longleftrightarrow> bit (bits ! k) b \<or> touched y dst i j k b)"
      by blast
    have "\<exists>bits'. pack_rows y dst i (j + 1) bits1 = Inr bits' \<and> length bits' = length bits1 \<and>
     (\<forall>k b. k < length bits1 \<longrightarrow>
        (bit (bits' ! k) b \<longleftrightarrow> bit (bits1 ! k) b \<or>
           (\<exists>row. j + 1 \<le> row \<and> row < y \<and> touched y dst i row k b)))"
      using "1.IH"[OF True p] "1.prems" l1 by simp
    then obtain bits2 where
      r: "pack_rows y dst i (j + 1) bits1 = Inr bits2" and l2: "length bits2 = length bits1"
      and b2: "\<And>k b. k < length bits1 \<Longrightarrow>
        (bit (bits2 ! k) b \<longleftrightarrow> bit (bits1 ! k) b \<or>
           (\<exists>row. j + 1 \<le> row \<and> row < y \<and> touched y dst i row k b))"
      by blast
    have le: "\<And>row. j \<le> row \<longleftrightarrow> row = j \<or> j + 1 \<le> row" by auto
    have split: "\<And>k b. (\<exists>row. j \<le> row \<and> row < y \<and> touched y dst i row k b) \<longleftrightarrow>
        touched y dst i j k b \<or> (\<exists>row. j + 1 \<le> row \<and> row < y \<and> touched y dst i row k b)"
      using True by (simp only: le) blast
    have "pack_rows y dst i j bits = Inr bits2"
      using True p r by (subst pack_rows.simps) simp
    moreover have "length bits2 = length bits" using l1 l2 by simp
    moreover have "\<forall>k b. k < length bits \<longrightarrow>
        (bit (bits2 ! k) b \<longleftrightarrow> bit (bits ! k) b \<or>
           (\<exists>row. j \<le> row \<and> row < y \<and> touched y dst i row k b))"
    proof (intro allI impI)
      fix k b assume k: "k < length bits"
      then have k1: "k < length bits1" using l1 by simp
      show "bit (bits2 ! k) b \<longleftrightarrow> bit (bits ! k) b \<or>
           (\<exists>row. j \<le> row \<and> row < y \<and> touched y dst i row k b)"
        by (simp only: b2[OF k1] b1[OF k] split disj_assoc)
    qed
    ultimately show ?thesis by blast
  qed
qed

lemma pack_cols_ok:
  assumes "0 \<le> i" "0 \<le> y" "i < x \<longrightarrow> x * y \<le> 8 * int (length bits)"
    and "8 * int (length bits) \<le> maxInt"
  shows "\<exists>bits'. pack_cols x y dst i bits = Inr bits' \<and> length bits' = length bits \<and>
     (\<forall>k b. k < length bits \<longrightarrow>
        (bit (bits' ! k) b \<longleftrightarrow> bit (bits ! k) b \<or>
           (\<exists>col row. i \<le> col \<and> col < x \<and> 0 \<le> row \<and> row < y \<and> touched y dst col row k b)))"
  using assms
proof (induction x y dst i bits rule: pack_cols.induct)
  case (1 x y dst i bits)
  show ?case
  proof (cases "i < x")
    case False
    then show ?thesis by (subst pack_cols.simps) auto
  next
    case True
    have "(i + 1) * y \<le> x * y"
      using True "1.prems"(2) by (intro mult_right_mono) auto
    then have room: "i * y + y \<le> 8 * int (length bits)"
      using "1.prems"(3) True by (simp add: algebra_simps)
    have "\<exists>bits'. pack_rows y dst i 0 bits = Inr bits' \<and> length bits' = length bits \<and>
     (\<forall>k b. k < length bits \<longrightarrow>
        (bit (bits' ! k) b \<longleftrightarrow> bit (bits ! k) b \<or>
           (\<exists>row. 0 \<le> row \<and> row < y \<and> touched y dst i row k b)))"
      using "1.prems"(1,4) room by (intro pack_rows_ok) simp_all
    then obtain bits1 where
      p: "pack_rows y dst i 0 bits = Inr bits1" and l1: "length bits1 = length bits"
      and b1: "\<And>k b. k < length bits \<Longrightarrow>
        (bit (bits1 ! k) b \<longleftrightarrow> bit (bits ! k) b \<or>
           (\<exists>row. 0 \<le> row \<and> row < y \<and> touched y dst i row k b))"
      by blast
    have "\<exists>bits'. pack_cols x y dst (i + 1) bits1 = Inr bits' \<and> length bits' = length bits1 \<and>
     (\<forall>k b. k < length bits1 \<longrightarrow>
        (bit (bits' ! k) b \<longleftrightarrow> bit (bits1 ! k) b \<or>
           (\<exists>col row. i + 1 \<le> col \<and> col < x \<and> 0 \<le> row \<and> row < y \<and>
              touched y dst col row k b)))"
    proof (rule "1.IH"[OF True p])
      show "0 \<le> i + 1" using "1.prems"(1) by simp
      show "0 \<le> y" by (rule "1.prems"(2))
      show "i + 1 < x \<longrightarrow> x * y \<le> 8 * int (length bits1)"
        using "1.prems"(3) True l1 by simp
      show "8 * int (length bits1) \<le> maxInt"
        using "1.prems"(4) l1 by simp
    qed
    then obtain bits2 where
      r: "pack_cols x y dst (i + 1) bits1 = Inr bits2" and l2: "length bits2 = length bits1"
      and b2: "\<And>k b. k < length bits1 \<Longrightarrow>
        (bit (bits2 ! k) b \<longleftrightarrow> bit (bits1 ! k) b \<or>
           (\<exists>col row. i + 1 \<le> col \<and> col < x \<and> 0 \<le> row \<and> row < y \<and>
              touched y dst col row k b))"
      by blast
    have le: "\<And>col. i \<le> col \<longleftrightarrow> col = i \<or> i + 1 \<le> col" by auto
    have split: "\<And>k b.
        (\<exists>col row. i \<le> col \<and> col < x \<and> 0 \<le> row \<and> row < y \<and> touched y dst col row k b) \<longleftrightarrow>
        (\<exists>row. 0 \<le> row \<and> row < y \<and> touched y dst i row k b) \<or>
        (\<exists>col row. i + 1 \<le> col \<and> col < x \<and> 0 \<le> row \<and> row < y \<and> touched y dst col row k b)"
      using True by (simp only: le) blast
    have "pack_cols x y dst i bits = Inr bits2"
      using True p r by (subst pack_cols.simps) simp
    moreover have "length bits2 = length bits" using l1 l2 by simp
    moreover have "\<forall>k b. k < length bits \<longrightarrow>
        (bit (bits2 ! k) b \<longleftrightarrow> bit (bits ! k) b \<or>
           (\<exists>col row. i \<le> col \<and> col < x \<and> 0 \<le> row \<and> row < y \<and> touched y dst col row k b))"
    proof (intro allI impI)
      fix k b assume k: "k < length bits"
      then have k1: "k < length bits1" using l1 by simp
      show "bit (bits2 ! k) b \<longleftrightarrow> bit (bits ! k) b \<or>
           (\<exists>col row. i \<le> col \<and> col < x \<and> 0 \<le> row \<and> row < y \<and> touched y dst col row k b)"
        by (simp only: b2[OF k1] b1[OF k] split disj_assoc)
    qed
    ultimately show ?thesis by blast
  qed
qed




lemma PrintImg_cell_ok:
  assumes "0 \<le> j * y + i" "j * y + i < 8 * int (length bits)"
    and "go_add (go_mul j y) i = j * y + i"
  shows "PrintImg_cell y i j bits =
     Inr (if bit (bits ! nat ((j * y + i) div 8)) (nat (7 - (j * y + i) mod 8))
          then star else space)"
proof -
  have "0 \<le> (j * y + i) div 8" "(j * y + i) div 8 < int (length bits)"
    using assms(1,2) by auto
  moreover have "nat (7 - (j * y + i) mod 8) < 8" by simp
  moreover have "\<And>w::byte. \<And>n. (w AND push_bit n 1 \<noteq> 0) = bit w n"
    by (simp only: bit_iff_and_push_bit_not_eq_0)
  ultimately show ?thesis
    using assms(1)
    by (simp add: PrintImg_cell_def assms(3) Let_def go_div_nonneg go_mod_nonneg
        del: push_bit_of_1)
qed




lemma PrintImg_cols_run:
  assumes "\<And>col. j \<le> col \<Longrightarrow> col < x \<Longrightarrow> PrintImg_cell y i col bits = Inr (f col)"
  shows "PrintImg_cols x y i j bits out = (out @ map f [j..x - 1], None)"
  using assms
proof (induction x y i j bits out rule: PrintImg_cols.induct)
  case (1 x y i j bits out)
  show ?case
  proof (cases "j < x")
    case False
    then show ?thesis by (subst PrintImg_cols.simps) simp
  next
    case True
    have c: "PrintImg_cell y i j bits = Inr (f j)" using "1.prems" True by simp
    have "PrintImg_cols x y i (j + 1) bits (out @ [f j]) =
            ((out @ [f j]) @ map f [j + 1..x - 1], None)"
      using "1.IH"[OF True c] "1.prems" by simp
    moreover have "[j..x - 1] = j # [j + 1..x - 1]"
      using True by (intro upto_rec1) simp
    ultimately show ?thesis
      using True c by (subst PrintImg_cols.simps) simp
  qed
qed

lemma PrintImg_rows_run:
  assumes "\<And>row col. i \<le> row \<Longrightarrow> row < y \<Longrightarrow> 0 \<le> col \<Longrightarrow> col < x \<Longrightarrow>
             PrintImg_cell y row col bits = Inr (f row col)"
  shows "PrintImg_rows x y i bits out =
           (out @ concat (map (\<lambda>row. map (f row) [0..x - 1] @ [newline]) [i..y - 1]), None)"
  using assms
proof (induction x y i bits out rule: PrintImg_rows.induct)
  case (1 x y i bits out)
  show ?case
  proof (cases "i < y")
    case False
    then show ?thesis by (subst PrintImg_rows.simps) simp
  next
    case True
    have c: "PrintImg_cols x y i 0 bits out = (out @ map (f i) [0..x - 1], None)"
      using "1.prems" True by (intro PrintImg_cols_run) simp
    have "PrintImg_rows x y (i + 1) bits ((out @ map (f i) [0..x - 1]) @ [newline]) =
            (((out @ map (f i) [0..x - 1]) @ [newline]) @
              concat (map (\<lambda>row. map (f row) [0..x - 1] @ [newline]) [i + 1..y - 1]), None)"
      using "1.IH"[OF True c[symmetric] refl] "1.prems" by simp
    moreover have "[i..y - 1] = i # [i + 1..y - 1]"
      using True by (intro upto_rec1) simp
    ultimately show ?thesis
      using True c by (subst PrintImg_rows.simps) simp
  qed
qed

lemma NewRGBA_product:
  assumes "\<not> NewRGBA_panics e x y"
  shows "minInt \<le> x * y \<and> x * y \<le> maxInt"
proof -
  from assms have m: "0 \<le> mul3NonNeg 4 (extent x) (extent y)"
    by (simp add: NewRGBA_panics_def split: if_splits)
  then have e: "0 \<le> extent x" "0 \<le> extent y" "4 * extent x * extent y < 2 ^ 63"
    by (auto simp: mul3NonNeg_def split: if_splits)
  have a: "extent x = \<bar>x\<bar>" "extent y = \<bar>y\<bar>"
    using e(1,2) by (auto simp: extent_def minInt_def split: if_splits)
  have "0 \<le> \<bar>x\<bar> * \<bar>y\<bar>" by simp
  then have "\<bar>x\<bar> * \<bar>y\<bar> < 2 ^ 63" using e(3) a by simp
  then have "\<bar>x * y\<bar> < 2 ^ 63" by (simp add: abs_mult)
  then show ?thesis by (simp add: minInt_def maxInt_def) linarith
qed

lemma NewRGBA_go_mul: "\<not> NewRGBA_panics e x y \<Longrightarrow> go_mul x y = x * y"
  unfolding go_mul_def using NewRGBA_product[of e x y] by (simp add: wrap_id)

lemma flat_index_inj:
  fixes y :: int
  assumes "0 \<le> r" "r < y" "0 \<le> r'" "r' < y" "c * y + r = c' * y + r'"
  shows "c = c' \<and> r = r'"
proof -
  have "(c * y + r) mod y = r" "(c' * y + r') mod y = r'"
    using assms(1-4) by simp_all
  then have r: "r = r'" using assms(5) by metis
  then have "c * y = c' * y" using assms(5) by simp
  then show ?thesis using r assms by simp
qed

lemma ImgToBytes_packs:
  assumes "0 \<le> x" "0 \<le> y" "y mod 8 = 0" "\<not> NewRGBA_panics e x y"
    and "\<not> makeslice_panics e (x * y sdiv 8)"
    and "Scale e x y src = Some scaled" "dither_step e x y scaled = Inr dst"
  shows "\<exists>bits. ImgToBytes e x y src = Inr bits \<and> int (length bits) = x * y div 8 \<and>
     (\<forall>k b. k < length bits \<longrightarrow>
        (bit (bits ! k) b \<longleftrightarrow>
           (\<exists>col row. 0 \<le> col \<and> col < x \<and> 0 \<le> row \<and> row < y \<and> touched y dst col row k b)))"
proof -
  have nn: "0 \<le> x * y" using assms(1,2) by simp
  have fit: "x * y \<le> maxInt" using NewRGBA_product[OF assms(4)] by simp
  have gm: "go_mul x y = x * y" using assms(4) by (rule NewRGBA_go_mul)
  have dv: "8 dvd x * y" using assms(3) by (simp add: dvd_eq_mod_eq_0 [symmetric])
  define n where "n = nat (x * y div 8)"
  have n: "int n = x * y div 8" using nn by (simp add: n_def pos_imp_zdiv_nonneg_iff)
  have full: "8 * int n = x * y" using dv n by simp
  have "\<exists>bits'. pack_cols x y dst 0 (replicate n 0) = Inr bits' \<and>
          length bits' = length (replicate n (0::byte)) \<and>
     (\<forall>k b. k < length (replicate n (0::byte)) \<longrightarrow>
        (bit (bits' ! k) b \<longleftrightarrow> bit (replicate n (0::byte) ! k) b \<or>
           (\<exists>col row. 0 \<le> col \<and> col < x \<and> 0 \<le> row \<and> row < y \<and>
              touched y dst col row k b)))"
    using assms(2) full fit by (intro pack_cols_ok) simp_all
  then obtain bits where
    p: "pack_cols x y dst 0 (replicate n 0) = Inr bits" and l: "length bits = n"
    and b: "\<And>k b. k < n \<Longrightarrow> 
        (bit (bits ! k) b \<longleftrightarrow>
           (\<exists>col row. 0 \<le> col \<and> col < x \<and> 0 \<le> row \<and> row < y \<and> touched y dst col row k b))"
    by auto
  have "ImgToBytes e x y src = Inr bits"
    using assms(4-7) nn p
    by (simp add: ImgToBytes_def gm Let_def go_div_nonneg n_def pos_imp_zdiv_nonneg_iff)
  then show ?thesis using l n b by auto
qed

lemma packed_pixel:
  assumes "0 \<le> x" "0 \<le> y" "y mod 8 = 0"
    and "int (length bits) = x * y div 8"
    and "\<And>k b. k < length bits \<Longrightarrow> (bit (bits ! k) b \<longleftrightarrow>
           (\<exists>col row. 0 \<le> col \<and> col < x \<and> 0 \<le> row \<and> row < y \<and> touched y dst col row k b))"
    and "0 \<le> col" "col < x" "0 \<le> row" "row < y"
  shows "0 \<le> col * y + row" "col * y + row < 8 * int (length bits)"
    "bit (bits ! nat ((col * y + row) div 8)) (nat (7 - (col * y + row) mod 8)) \<longleftrightarrow>
       sum_is_zero (dst col row)"
proof -
  define n where "n = col * y + row"
  show nn: "0 \<le> col * y + row" using assms by simp
  have dv: "8 dvd x * y" using assms(3) by (simp add: dvd_eq_mod_eq_0 [symmetric])
  have full: "8 * int (length bits) = x * y" using dv assms(4) by simp
  have "(col + 1) * y \<le> x * y" using assms by (intro mult_right_mono) auto
  then show lt: "col * y + row < 8 * int (length bits)"
    using full assms(9) by (simp add: algebra_simps)
  define K where "K = nat (n div 8)"
  define B where "B = nat (7 - n mod 8)"
  have K: "K < length bits" "int K = n div 8" using nn lt by (auto simp: K_def n_def)
  have B: "int B = 7 - n mod 8"
    unfolding B_def by (simp add: shift_count)
  have "(\<exists>c r. 0 \<le> c \<and> c < x \<and> 0 \<le> r \<and> r < y \<and> touched y dst c r K B) \<longleftrightarrow>
          sum_is_zero (dst col row)"
  proof
    assume "\<exists>c r. 0 \<le> c \<and> c < x \<and> 0 \<le> r \<and> r < y \<and> touched y dst c r K B"
    then obtain c r where cr: "0 \<le> r" "r < y" "sum_is_zero (dst c r)"
      "(c * y + r) div 8 = n div 8" "(c * y + r) mod 8 = n mod 8"
      using K(2) B by (auto simp: touched_def)
    have "c * y + r = n"
      using cr(4,5) by (metis div_mult_mod_eq)
    then have "c = col \<and> r = row"
      using flat_index_inj[of r y row c col] cr(1,2) assms(8,9) by (simp add: n_def)
    then show "sum_is_zero (dst col row)" using cr(3) by simp
  next
    assume "sum_is_zero (dst col row)"
    then have "touched y dst col row K B" using K(2) B by (simp add: touched_def n_def)
    then show "\<exists>c r. 0 \<le> c \<and> c < x \<and> 0 \<le> r \<and> r < y \<and> touched y dst c r K B"
      using assms(6-9) by blast
  qed
  then show "bit (bits ! nat ((col * y + row) div 8)) (nat (7 - (col * y + row) mod 8)) \<longleftrightarrow>
       sum_is_zero (dst col row)"
    using assms(5)[OF K(1), of B] by (simp add: K_def B_def n_def)
qed

lemma PrintImg_packed:
  assumes "0 \<le> x" "0 \<le> y" "y mod 8 = 0"
    and "int (length bits) = x * y div 8"
    and "\<And>k b. k < length bits \<Longrightarrow> (bit (bits ! k) b \<longleftrightarrow>
           (\<exists>col row. 0 \<le> col \<and> col < x \<and> 0 \<le> row \<and> row < y \<and> touched y dst col row k b))"
    and "x * y \<le> maxInt"
  shows "PrintImg x y bits = (pattern_text x y dst, None)"
proof -
  have cell: "PrintImg_cell y row col bits =
      Inr (if sum_is_zero (dst col row) then star else space)"
    if "0 \<le> row" "row < y" "0 \<le> col" "col < x" for row col
    using packed_pixel[OF assms(1-5) that(3,4,1,2)]
      pixel_index_plain[OF assms(2,6) that(3,4,1,2)]
    by (simp add: PrintImg_cell_ok)
  show ?thesis
    unfolding PrintImg_def pattern_text_def
    by (subst PrintImg_rows_run[where f = "\<lambda>row col. if sum_is_zero (dst col row) then star else space"])
       (simp_all add: cell)
qed

lemma all_clear:
  fixes bits :: "byte list"
  assumes "\<And>k b. k < length bits \<Longrightarrow> \<not> bit (bits ! k) b"
  shows "bits = replicate (length bits) 0"
proof (rule nth_equalityI)
  show "length bits = length (replicate (length bits) (0::byte))" by simp
next
  fix k assume k: "k < length bits"
  have "bits ! k = 0" by (rule bit_eqI) (simp add: assms[OF k])
  then show "bits ! k = replicate (length bits) 0 ! k" using k by simp
qed

lemma PrintImg_no_panic:
  assumes "0 \<le> x" "0 \<le> y" "x * y \<le> 8 * int (length imgBits)"
    and "8 * int (length imgBits) \<le> maxInt"
  shows "snd (PrintImg x y imgBits) = None"
proof -
  define f where "f = (\<lambda>row col.
     if bit (imgBits ! nat ((col * y + row) div 8)) (nat (7 - (col * y + row) mod 8))
     then star else space)"
  have cell: "PrintImg_cell y row col imgBits = Inr (f row col)"
    if "0 \<le> row" "row < y" "0 \<le> col" "col < x" for row col
  proof -
    have "(col + 1) * y \<le> x * y" using that assms(1,2) by (intro mult_right_mono) auto
    then have lt: "col * y + row < 8 * int (length imgBits)"
      using assms(3) that(2) by (simp add: algebra_simps)
    have nn: "0 \<le> col * y + row" using that assms(1,2) by simp
    have "go_add (go_mul col y) row = col * y + row"
      using that assms(2,4) lt by (intro flat_index_plain) simp_all
    with nn lt show ?thesis unfolding f_def by (intro PrintImg_cell_ok)
  qed
  have "PrintImg_rows x y 0 imgBits [] =
          ([] @ concat (map (\<lambda>row. map (f row) [0..x - 1] @ [newline]) [0..y - 1]), None)"
    by (rule PrintImg_rows_run) (simp add: cell)
  then show ?thesis by (simp add: PrintImg_def)
qed

lemma set_bit_at_length:
  "set_bit_at y i j bits = Inr bits' \<Longrightarrow> length bits' = length bits"
  by (auto simp: set_bit_at_def Let_def split: if_splits)

lemma pack_pixel_length:
  "pack_pixel y dst i j bits = Inr bits' \<Longrightarrow> length bits' = length bits"
  by (auto simp: pack_pixel_def dest: set_bit_at_length split: if_splits)

lemma pack_rows_length:
  "pack_rows y dst i j bits = Inr bits' \<Longrightarrow> length bits' = length bits"
proof (induction y dst i j bits rule: pack_rows.induct)
  case (1 y dst i j bits)
  show ?case
  proof (cases "j < y")
    case False
    then show ?thesis using "1.prems" by (subst (asm) pack_rows.simps) simp
  next
    case True
    from "1.prems" True obtain bits1 where
      p: "pack_pixel y dst i j bits = Inr bits1" and
      r: "pack_rows y dst i (j + 1) bits1 = Inr bits'"
      by (subst (asm) pack_rows.simps) (auto split: sum.splits)
    show ?thesis using "1.IH"[OF True p r] pack_pixel_length[OF p] by simp
  qed
qed

lemma pack_cols_length:
  "pack_cols x y dst i bits = Inr bits' \<Longrightarrow> length bits' = length bits"
proof (induction x y dst i bits rule: pack_cols.induct)
  case (1 x y dst i bits)
  show ?case
  proof (cases "i < x")
    case False
    then show ?thesis using "1.prems" by (subst (asm) pack_cols.simps) simp
  next
    case True
    from "1.prems" True obtain bits1 where
      p: "pack_rows y dst i 0 bits = Inr bits1" and
      r: "pack_cols x y dst (i + 1) bits1 = Inr bits'"
      by (subst (asm) pack_cols.simps) (auto split: sum.splits)
    show ?thesis using "1.IH"[OF True p r] pack_rows_length[OF p] by simp
  qed
qed

lemma ImgToBytes_returns_length:
  assumes "ImgToBytes e x y src = Inr bits"
  shows "int (length bits) = x * y sdiv 8"
proof -
  from assms have ok: "\<not> NewRGBA_panics e x y"
    by (auto simp: ImgToBytes_def split: if_splits)
  have gm: "go_mul x y = x * y" using ok by (rule NewRGBA_go_mul)
  from assms have nn: "0 \<le> x * y sdiv 8"
    by (auto simp: ImgToBytes_def gm makeslice_panics_def Let_def
        split: if_splits option.splits)
  from assms obtain dst where
    "pack_cols x y dst 0 (replicate (nat (x * y sdiv 8)) 0) = Inr bits"
    by (auto simp: ImgToBytes_def gm Let_def split: if_splits option.splits sum.splits)
  from pack_cols_length[OF this] nn show ?thesis by simp
qed

lemma sum_is_zero_channels:
  "sum_is_zero c \<longleftrightarrow> unat (chR c) + unat (chG c) + unat (chB c) = 0"
  by (simp add: sum_is_zero_iff unat_eq_0)

lemma ParseRatio_presets:
  "ParseRatio ''profile'' = Inl Invalid_ratio_string"
  "ParseRatio ''splash'' = Inl Invalid_ratio_string"
  "ParseRatio [] = Inl Invalid_ratio_string"
  by code_simp+

lemma ratio_switch_stop:
  assumes "ratio_switch r = Inl stop"
  shows "snd stop = 1 \<and> list_all is_report (fst stop) \<and> no_output (fst stop)"
  using assms
  by (auto simp: ratio_switch_def Usage_def split: if_splits sum.splits prod.splits)

lemma ratio_switch_height:
  assumes "ratio_switch r = Inr (x, y)"
  shows "y smod 8 = 0"
  using assms
  by (auto simp: ratio_switch_def split: if_splits sum.splits prod.splits)

lemma main_stops_at_ratio:
  assumes "ratio_switch (ratio e) = Inl stop"
  shows "snd (main e) = 1 \<and> list_all is_report (fst (main e))"
  using assms ratio_switch_stop[OF assms]
  by (simp add: main_def Let_def split: option.splits)

lemma abort_outcome_stop:
  "snd (abort_outcome [Call_ImgToBytes x y] a) \<noteq> 0 \<and>
   no_output (fst (abort_outcome [Call_ImgToBytes x y] a))"
  by (simp add: abort_outcome_def)

lemma outMode_switch_invalid:
  assumes "outMode e \<noteq> ''rice''" "outMode e \<noteq> ''bin''" "outMode e \<noteq> ''base64''"
    "outMode e \<noteq> ''none''"
  shows "outMode_switch e imgBits = Inl ([Log (Log_outmode (outMode e)), Usage_text], 1)"
  using assms by (simp add: outMode_switch_def Usage_def)

section \<open>The bit packer\<close>

text \<open>
  Claim C1. Take a target of width \<open>x\<close> and height \<open>y\<close> with \<open>y\<close> divisible by 8 for
  which \<open>image.NewRGBA\<close>, the scaler, \<open>make\<close> and the ditherer do not panic, and let
  \<open>dst\<close> be the image that reaches the packing loop. Then \<open>ImgToBytes\<close> returns a
  buffer in which, for every black pixel at column \<open>col\<close> and row \<open>row\<close> (channel sum
  zero), bit \<open>7 - idx mod 8\<close> of byte \<open>idx div 8\<close> is set, where \<open>idx = col * y + row\<close>;
  and every bit that is set in the buffer is the bit of such a pixel. The loops of
  the model run over the columns outside and over the rows inside, as \<open>pack_cols\<close>
  and \<open>pack_rows\<close> are written.
\<close>

theorem ImgToBytes_sets_black_bits:
  assumes "0 \<le> x" "0 \<le> y" "y smod 8 = 0"
    and "\<not> NewRGBA_panics e x y" "\<not> makeslice_panics e (x * y sdiv 8)"
    and "Scale e x y src = Some scaled" "dither_step e x y scaled = Inr dst"
  shows "\<exists>bits. ImgToBytes e x y src = Inr bits \<and>
     (\<forall>col row. 0 \<le> col \<and> col < x \<and> 0 \<le> row \<and> row < y \<and> sum_is_zero (dst col row) \<longrightarrow>
        (col * y + row) div 8 < int (length bits) \<and>
        bit (bits ! nat ((col * y + row) div 8)) (nat (7 - (col * y + row) mod 8))) \<and>
     (\<forall>k b. k < length bits \<and> bit (bits ! k) b \<longrightarrow>
        (\<exists>col row. 0 \<le> col \<and> col < x \<and> 0 \<le> row \<and> row < y \<and> sum_is_zero (dst col row) \<and>
           int k = (col * y + row) div 8 \<and> int b = 7 - (col * y + row) mod 8))"
proof -
  have m: "y mod 8 = 0" using assms(2,3) by (simp add: go_mod_nonneg)
  from ImgToBytes_packs[OF assms(1,2) m assms(4-7)] obtain bits where
    r: "ImgToBytes e x y src = Inr bits" and l: "int (length bits) = x * y div 8"
    and b: "\<And>k b. k < length bits \<Longrightarrow> (bit (bits ! k) b \<longleftrightarrow>
           (\<exists>col row. 0 \<le> col \<and> col < x \<and> 0 \<le> row \<and> row < y \<and> touched y dst col row k b))"
    by blast
  have "(col * y + row) div 8 < int (length bits) \<and>
        bit (bits ! nat ((col * y + row) div 8)) (nat (7 - (col * y + row) mod 8))"
    if "0 \<le> col" "col < x" "0 \<le> row" "row < y" "sum_is_zero (dst col row)" for col row
    using packed_pixel[OF assms(1,2) m l b that(1-4)] that(5) by auto
  moreover have "\<exists>col row. 0 \<le> col \<and> col < x \<and> 0 \<le> row \<and> row < y \<and> sum_is_zero (dst col row) \<and>
           int k = (col * y + row) div 8 \<and> int b = 7 - (col * y + row) mod 8"
    if "k < length bits" "bit (bits ! k) b" for k b
    using b[OF that(1), of b] that(2) unfolding touched_def by simp
  ultimately show ?thesis using r by blast
qed

theorem ImgToBytes_sets_black_bits_witness:
  "(0::int) \<le> 1 \<and> (0::int) \<le> 8 \<and> (8::int) smod 8 = 0 \<and>
   \<not> NewRGBA_panics sample_env 1 8 \<and> \<not> makeslice_panics sample_env (1 * 8 sdiv 8) \<and>
   Scale sample_env 1 8 one_black = Some one_black \<and>
   dither_step sample_env 1 8 one_black = Inr one_black \<and>
   (\<exists>bits. ImgToBytes sample_env 1 8 one_black = Inr bits \<and>
     (\<forall>col row. 0 \<le> col \<and> col < 1 \<and> 0 \<le> row \<and> row < 8 \<and> sum_is_zero (one_black col row) \<longrightarrow>
        (col * 8 + row) div 8 < int (length bits) \<and>
        bit (bits ! nat ((col * 8 + row) div 8)) (nat (7 - (col * 8 + row) mod 8))) \<and>
     (\<forall>k b. k < length bits \<and> bit (bits ! k) b \<longrightarrow>
        (\<exists>col row. 0 \<le> col \<and> col < 1 \<and> 0 \<le> row \<and> row < 8 \<and> sum_is_zero (one_black col row) \<and>
           int k = (col * 8 + row) div 8 \<and> int b = 7 - (col * 8 + row) mod 8)))"
proof -
  have h1: "(0::int) \<le> 1" and h2: "(0::int) \<le> 8" and h3: "(8::int) smod 8 = 0" by simp_all
  have h4: "\<not> NewRGBA_panics sample_env 1 8"
    by (simp add: NewRGBA_panics_def makeslice_panics_def mul3NonNeg_def extent_def
        minInt_def sample_env_def)
  have h5: "\<not> makeslice_panics sample_env (1 * 8 sdiv 8)"
    by (simp add: makeslice_panics_def sample_env_def)
  have h6: "Scale sample_env 1 8 one_black = Some one_black"
    by (simp add: sample_env_def)
  have h7: "dither_step sample_env 1 8 one_black = Inr one_black"
    by (simp add: dither_step_def sample_env_def)
  show ?thesis
    using h1 h2 h3 h4 h5 h6 h7 ImgToBytes_sets_black_bits[OF h1 h2 h3 h4 h5 h6 h7] by blast
qed

text \<open>
  Claim C2. Whenever \<open>ImgToBytes\<close> returns a buffer, its length is \<open>x * y / 8\<close> in
  Go's division. And it does return one for every target of height divisible by 8,
  whatever the image, where \<open>image.NewRGBA\<close>, the scaler, \<open>make\<close> and the ditherer do
  not panic and the dithered image has the type the library promises.
\<close>

theorem ImgToBytes_length:
  "(ImgToBytes e x y src = Inr bits \<longrightarrow> int (length bits) = x * y sdiv 8) \<and>
   (0 \<le> x \<and> 0 \<le> y \<and> y smod 8 = 0 \<and>
    \<not> NewRGBA_panics e x y \<and> \<not> makeslice_panics e (x * y sdiv 8) \<and>
    Scale e x y src = Some scaled \<and> dither_step e x y scaled = Inr dst \<longrightarrow>
      (\<exists>bs. ImgToBytes e x y src = Inr bs))"
proof (rule conjI)
  show "ImgToBytes e x y src = Inr bits \<longrightarrow> int (length bits) = x * y sdiv 8"
    by (intro impI ImgToBytes_returns_length)
next
  show "0 \<le> x \<and> 0 \<le> y \<and> y smod 8 = 0 \<and>
    \<not> NewRGBA_panics e x y \<and> \<not> makeslice_panics e (x * y sdiv 8) \<and>
    Scale e x y src = Some scaled \<and> dither_step e x y scaled = Inr dst \<longrightarrow>
      (\<exists>bs. ImgToBytes e x y src = Inr bs)"
  proof (intro impI, elim conjE)
    assume h: "0 \<le> x" "0 \<le> y" "y smod 8 = 0"
      "\<not> NewRGBA_panics e x y" "\<not> makeslice_panics e (x * y sdiv 8)"
      "Scale e x y src = Some scaled" "dither_step e x y scaled = Inr dst"
    have m: "y mod 8 = 0" using h(2,3) by (simp add: go_mod_nonneg)
    show "\<exists>bs. ImgToBytes e x y src = Inr bs"
      using ImgToBytes_packs[OF h(1,2) m h(4-7)] by blast
  qed
qed

theorem ImgToBytes_length_witness:
  "(0::int) \<le> 2 \<and> (0::int) \<le> 8 \<and> (8::int) smod 8 = 0 \<and>
   \<not> NewRGBA_panics sample_env 2 8 \<and> \<not> makeslice_panics sample_env (2 * 8 sdiv 8) \<and>
   Scale sample_env 2 8 one_black = Some one_black \<and>
   dither_step sample_env 2 8 one_black = Inr one_black \<and>
   ImgToBytes sample_env 2 8 one_black = Inr [16, 0] \<and>
   int (length [16, 0 :: byte]) = 2 * 8 sdiv 8"
proof -
  have h: "(0::int) \<le> 2 \<and> (0::int) \<le> 8 \<and> (8::int) smod 8 = 0 \<and>
      \<not> NewRGBA_panics sample_env 2 8 \<and> \<not> makeslice_panics sample_env (2 * 8 sdiv 8) \<and>
      Scale sample_env 2 8 one_black = Some one_black \<and>
      dither_step sample_env 2 8 one_black = Inr one_black"
    by (simp add: NewRGBA_panics_def makeslice_panics_def mul3NonNeg_def extent_def
        minInt_def dither_step_def sample_env_def)
  have r: "ImgToBytes sample_env 2 8 one_black = Inr [16, 0]"
    by code_simp
  show ?thesis
    using h r
      ImgToBytes_length[of sample_env 2 8 one_black "[16, 0]" one_black one_black]
    by blast
qed

text \<open>
  Claim C3. Packing followed by the preview's bit extraction is a round trip. Under
  the conditions of C1, for every row \<open>i\<close> and column \<open>j\<close> of the target the character
  that \<open>PrintImg\<close> computes from the packed buffer (byte \<open>offset / 8\<close>, bit
  \<open>7 - offset % 8\<close>, \<open>offset = j * y + i\<close>) is the star exactly when the pixel at column
  \<open>j\<close> and row \<open>i\<close> was packed as black, and the whole text that \<open>PrintImg\<close> writes is
  the pattern of the image, without a panic.
\<close>

theorem preview_round_trip:
  assumes "0 \<le> x" "0 \<le> y" "y smod 8 = 0"
    and "\<not> NewRGBA_panics e x y" "\<not> makeslice_panics e (x * y sdiv 8)"
    and "Scale e x y src = Some scaled" "dither_step e x y scaled = Inr dst"
  shows "\<exists>bits. ImgToBytes e x y src = Inr bits \<and>
     (\<forall>i j. 0 \<le> i \<and> i < y \<and> 0 \<le> j \<and> j < x \<longrightarrow>
        PrintImg_cell y i j bits = Inr (if sum_is_zero (dst j i) then star else space)) \<and>
     PrintImg x y bits = (pattern_text x y dst, None)"
proof -
  have m: "y mod 8 = 0" using assms(2,3) by (simp add: go_mod_nonneg)
  have fit: "x * y \<le> maxInt" using NewRGBA_product[OF assms(4)] by simp
  from ImgToBytes_packs[OF assms(1,2) m assms(4-7)] obtain bits where
    r: "ImgToBytes e x y src = Inr bits" and l: "int (length bits) = x * y div 8"
    and b: "\<And>k b. k < length bits \<Longrightarrow> (bit (bits ! k) b \<longleftrightarrow>
           (\<exists>col row. 0 \<le> col \<and> col < x \<and> 0 \<le> row \<and> row < y \<and> touched y dst col row k b))"
    by blast
  have "PrintImg_cell y i j bits = Inr (if sum_is_zero (dst j i) then star else space)"
    if "0 \<le> i" "i < y" "0 \<le> j" "j < x" for i j
    using packed_pixel[OF assms(1,2) m l b that(3,4,1,2)]
      pixel_index_plain[OF assms(2) fit that(3,4,1,2)]
    by (simp add: PrintImg_cell_ok)
  moreover have "PrintImg x y bits = (pattern_text x y dst, None)"
    using assms(1,2) m l b fit by (rule PrintImg_packed)
  ultimately show ?thesis using r by blast
qed

theorem preview_round_trip_witness:
  "(0::int) \<le> 1 \<and> (0::int) \<le> 8 \<and> (8::int) smod 8 = 0 \<and>
   \<not> NewRGBA_panics sample_env 1 8 \<and> \<not> makeslice_panics sample_env (1 * 8 sdiv 8) \<and>
   Scale sample_env 1 8 one_black = Some one_black \<and>
   dither_step sample_env 1 8 one_black = Inr one_black \<and>
   (\<exists>bits. ImgToBytes sample_env 1 8 one_black = Inr bits \<and>
     (\<forall>i j. 0 \<le> i \<and> i < 8 \<and> 0 \<le> j \<and> j < 1 \<longrightarrow>
        PrintImg_cell 8 i j bits = Inr (if sum_is_zero (one_black j i) then star else space)) \<and>
     PrintImg 1 8 bits = (pattern_text 1 8 one_black, None))"
proof -
  have h1: "(0::int) \<le> 1" and h2: "(0::int) \<le> 8" and h3: "(8::int) smod 8 = 0" by simp_all
  have h4: "\<not> NewRGBA_panics sample_env 1 8"
    by (simp add: NewRGBA_panics_def makeslice_panics_def mul3NonNeg_def extent_def
        minInt_def sample_env_def)
  have h5: "\<not> makeslice_panics sample_env (1 * 8 sdiv 8)"
    by (simp add: makeslice_panics_def sample_env_def)
  have h6: "Scale sample_env 1 8 one_black = Some one_black"
    by (simp add: sample_env_def)
  have h7: "dither_step sample_env 1 8 one_black = Inr one_black"
    by (simp add: dither_step_def sample_env_def)
  show ?thesis
    using h1 h2 h3 h4 h5 h6 h7 preview_round_trip[OF h1 h2 h3 h4 h5 h6 h7] by blast
qed

text \<open>
  Claim C7. With dithering disabled the image that is packed is the resampled one,
  and a pixel of it is packed as black, its bit set, exactly when the sum of its
  \<open>R\<close>, \<open>G\<close> and \<open>B\<close> channels is zero; the sum is taken here on the channel values
  themselves, which is the same as the test \<open>r+g+b == 0\<close> of line 240 on the widened
  channels. So when every pixel of the resampled target is white, the buffer is all
  zero, of length \<open>x * y / 8\<close>.
\<close>

theorem no_dithering_packs_pure_black:
  assumes "disableDithering e" "0 \<le> x" "0 \<le> y" "y smod 8 = 0"
    and "\<not> NewRGBA_panics e x y" "\<not> makeslice_panics e (x * y sdiv 8)"
    and "Scale e x y src = Some scaled"
  shows "\<exists>bits. ImgToBytes e x y src = Inr bits \<and> int (length bits) = x * y div 8 \<and>
     (\<forall>col row. 0 \<le> col \<and> col < x \<and> 0 \<le> row \<and> row < y \<longrightarrow>
        (bit (bits ! nat ((col * y + row) div 8)) (nat (7 - (col * y + row) mod 8)) \<longleftrightarrow>
           unat (chR (scaled col row)) + unat (chG (scaled col row)) +
           unat (chB (scaled col row)) = 0)) \<and>
     ((\<forall>col row. 0 \<le> col \<and> col < x \<and> 0 \<le> row \<and> row < y \<longrightarrow> scaled col row = White) \<longrightarrow>
        bits = replicate (nat (x * y div 8)) 0)"
proof -
  have m: "y mod 8 = 0" using assms(3,4) by (simp add: go_mod_nonneg)
  have d: "dither_step e x y scaled = Inr scaled"
    using assms(1) by (simp add: dither_step_def)
  from ImgToBytes_packs[OF assms(2,3) m assms(5-7) d] obtain bits where
    r: "ImgToBytes e x y src = Inr bits" and l: "int (length bits) = x * y div 8"
    and b: "\<And>k b. k < length bits \<Longrightarrow> (bit (bits ! k) b \<longleftrightarrow>
           (\<exists>col row. 0 \<le> col \<and> col < x \<and> 0 \<le> row \<and> row < y \<and>
              touched y scaled col row k b))"
    by blast
  have px: "bit (bits ! nat ((col * y + row) div 8)) (nat (7 - (col * y + row) mod 8)) \<longleftrightarrow>
           unat (chR (scaled col row)) + unat (chG (scaled col row)) +
           unat (chB (scaled col row)) = 0"
    if "0 \<le> col" "col < x" "0 \<le> row" "row < y" for col row
    using packed_pixel(3)[OF assms(2,3) m l b that]
    by (simp only: sum_is_zero_channels)
  have white: "bits = replicate (nat (x * y div 8)) 0"
    if w: "\<forall>col row. 0 \<le> col \<and> col < x \<and> 0 \<le> row \<and> row < y \<longrightarrow> scaled col row = White"
  proof -
    have nw: "\<not> sum_is_zero White"
      by (simp add: sum_is_zero_iff White_def)
    have "\<not> bit (bits ! k) b" if "k < length bits" for k b
      using b[OF that, of b] w nw by (auto simp: touched_def)
    then have "bits = replicate (length bits) 0" by (rule all_clear)
    moreover have "length bits = nat (x * y div 8)" using l by simp
    ultimately show ?thesis by simp
  qed
  show ?thesis
  proof (intro exI conjI)
    show "ImgToBytes e x y src = Inr bits" by (rule r)
    show "int (length bits) = x * y div 8" by (rule l)
    show "\<forall>col row. 0 \<le> col \<and> col < x \<and> 0 \<le> row \<and> row < y \<longrightarrow>
        (bit (bits ! nat ((col * y + row) div 8)) (nat (7 - (col * y + row) mod 8)) \<longleftrightarrow>
           unat (chR (scaled col row)) + unat (chG (scaled col row)) +
           unat (chB (scaled col row)) = 0)"
    proof (intro allI impI, elim conjE)
      fix col row
      assume "0 \<le> col" "col < x" "0 \<le> row" "row < y"
      then show "bit (bits ! nat ((col * y + row) div 8)) (nat (7 - (col * y + row) mod 8)) \<longleftrightarrow>
           unat (chR (scaled col row)) + unat (chG (scaled col row)) +
           unat (chB (scaled col row)) = 0"
        by (rule px)
    qed
    show "(\<forall>col row. 0 \<le> col \<and> col < x \<and> 0 \<le> row \<and> row < y \<longrightarrow> scaled col row = White) \<longrightarrow>
        bits = replicate (nat (x * y div 8)) 0"
      by (intro impI white)
  qed
qed

theorem no_dithering_packs_pure_black_witness:
  "disableDithering sample_env \<and> (0::int) \<le> 2 \<and> (0::int) \<le> 8 \<and> (8::int) smod 8 = 0 \<and>
   \<not> NewRGBA_panics sample_env 2 8 \<and> \<not> makeslice_panics sample_env (2 * 8 sdiv 8) \<and>
   Scale sample_env 2 8 all_white = Some (\<lambda>col row. White) \<and>
   ImgToBytes sample_env 2 8 all_white = Inr [0, 0] \<and>
   Scale sample_env 2 8 one_black = Some one_black \<and>
   unat (chR (one_black 0 3)) + unat (chG (one_black 0 3)) + unat (chB (one_black 0 3)) = 0 \<and>
   unat (chR (one_black 1 3)) + unat (chG (one_black 1 3)) + unat (chB (one_black 1 3)) = 765 \<and>
   (\<exists>bits. ImgToBytes sample_env 2 8 one_black = Inr bits \<and>
      bit (bits ! 0) 4 \<and> bit (bits ! 1) 4 = False)"
proof -
  have h1: "disableDithering sample_env" by (simp add: sample_env_def)
  have h2: "(0::int) \<le> 2" and h3: "(0::int) \<le> 8" and h4: "(8::int) smod 8 = 0" by simp_all
  have h5: "\<not> NewRGBA_panics sample_env 2 8"
    by (simp add: NewRGBA_panics_def makeslice_panics_def mul3NonNeg_def extent_def
        minInt_def sample_env_def)
  have h6: "\<not> makeslice_panics sample_env (2 * 8 sdiv 8)"
    by (simp add: makeslice_panics_def sample_env_def)
  have sw: "Scale sample_env 2 8 all_white = Some all_white"
    and sb: "Scale sample_env 2 8 one_black = Some one_black"
    by (simp_all add: sample_env_def)
  have w: "\<forall>col row. 0 \<le> col \<and> col < 2 \<and> 0 \<le> row \<and> row < 8 \<longrightarrow> all_white col row = White"
    by (simp add: all_white_def)
  have n: "replicate (nat (2 * 8 div 8)) (0::byte) = [0, 0]"
    by (simp add: numeral_2_eq_2)
  from no_dithering_packs_pure_black[OF h1 h2 h3 h4 h5 h6 sw] w n
  have white: "ImgToBytes sample_env 2 8 all_white = Inr [0, 0]" by auto
  have c03: "unat (chR (one_black 0 3)) + unat (chG (one_black 0 3)) +
      unat (chB (one_black 0 3)) = 0"
    and c13: "unat (chR (one_black 1 3)) + unat (chG (one_black 1 3)) +
      unat (chB (one_black 1 3)) = 765"
    by (simp_all add: one_black_def Black_def White_def)
  from no_dithering_packs_pure_black[OF h1 h2 h3 h4 h5 h6 sb] obtain bits where
    r: "ImgToBytes sample_env 2 8 one_black = Inr bits"
    and px: "\<forall>col row. 0 \<le> col \<and> col < 2 \<and> 0 \<le> row \<and> row < 8 \<longrightarrow>
        (bit (bits ! nat ((col * 8 + row) div 8)) (nat (7 - (col * 8 + row) mod 8)) \<longleftrightarrow>
           unat (chR (one_black col row)) + unat (chG (one_black col row)) +
           unat (chB (one_black col row)) = 0)"
    by (elim exE conjE)
  have b0: "bit (bits ! 0) 4"
    using px[rule_format, of 0 3] c03 by simp
  have b1: "bit (bits ! 1) 4 = False"
    using px[rule_format, of 1 3] c13 by simp
  have black: "\<exists>bits. ImgToBytes sample_env 2 8 one_black = Inr bits \<and>
      bit (bits ! 0) 4 \<and> bit (bits ! 1) 4 = False"
    using r b0 b1 by (intro exI conjI)
  have sw': "Scale sample_env 2 8 all_white = Some (\<lambda>col row. White)"
    using sw by (simp add: all_white_def)
  show ?thesis
    by (intro conjI h1 h2 h3 h4 h5 h6 sw' white sb c03 c13 black)
qed

text \<open>
  Claim C10. Take a positive width \<open>x\<close> and a positive height \<open>y\<close> divisible by 8
  whose product fits an \<open>int\<close>, as it does wherever \<open>image.NewRGBA\<close> has accepted the
  target, and a buffer of \<open>x * y / 8\<close> bytes. For every column \<open>col\<close> below \<open>x\<close> and row
  \<open>row\<close> below \<open>y\<close> the byte index \<open>(col * y + row) / 8\<close>, computed as the program
  computes it, lies in the buffer, so that neither the assignment of line 243 nor
  the read of line 289 panics; and both loops run to their end on such a buffer,
  whatever the image, without a panic. That they terminate is part of their
  definitions.
\<close>

theorem accesses_in_bounds:
  assumes "0 < x" "0 < y" "y smod 8 = 0" "x * y \<le> maxInt"
  shows "(\<forall>col row imgBits. 0 \<le> col \<and> col < x \<and> 0 \<le> row \<and> row < y \<and>
            int (length imgBits) = go_mul x y sdiv 8 \<longrightarrow>
            0 \<le> go_add (go_mul col y) row sdiv 8 \<and>
            go_add (go_mul col y) row sdiv 8 < go_mul x y sdiv 8 \<and>
            (\<exists>bs. set_bit_at y col row imgBits = Inr bs) \<and>
            (\<exists>c. PrintImg_cell y row col imgBits = Inr c)) \<and>
         (\<forall>dst imgBits. int (length imgBits) = go_mul x y sdiv 8 \<longrightarrow>
            (\<exists>bs. pack_cols x y dst 0 imgBits = Inr bs) \<and>
            snd (PrintImg x y imgBits) = None)"
proof -
  have m: "y mod 8 = 0" using assms(2,3) by (simp add: go_mod_nonneg)
  have nn: "0 \<le> x * y" using assms(1,2) by simp
  have gm: "go_mul x y = x * y"
    unfolding go_mul_def using nn assms(4) by (intro wrap_id) (simp_all add: minInt_def)
  have sd: "go_mul x y sdiv 8 = x * y div 8" using nn gm by (simp add: go_div_nonneg)
  have dv: "8 dvd x * y" using m by (simp add: dvd_eq_mod_eq_0 [symmetric])
  have full: "8 * (x * y div 8) = x * y" using dv by simp
  have y0: "0 \<le> y" using assms(2) by simp
  have one: "0 \<le> go_add (go_mul col y) row sdiv 8 \<and>
            go_add (go_mul col y) row sdiv 8 < go_mul x y sdiv 8 \<and>
            (\<exists>bs. set_bit_at y col row imgBits = Inr bs) \<and>
            (\<exists>c. PrintImg_cell y row col imgBits = Inr c)"
    if "0 \<le> col" "col < x" "0 \<le> row" "row < y" "int (length imgBits) = go_mul x y sdiv 8"
    for col row imgBits
  proof -
    have i0: "0 \<le> col * y + row" using that assms by simp
    have "(col + 1) * y \<le> x * y" using that assms by (intro mult_right_mono) auto
    then have lt: "col * y + row < 8 * int (length imgBits)"
      using that(4,5) full sd by (simp add: algebra_simps)
    have wr: "go_add (go_mul col y) row = col * y + row"
      using y0 assms(4) that(1-4) by (rule pixel_index_plain)
    have "0 \<le> (col * y + row) div 8" "(col * y + row) div 8 < int (length imgBits)"
      using i0 lt by auto
    then have "0 \<le> go_add (go_mul col y) row sdiv 8 \<and>
        go_add (go_mul col y) row sdiv 8 < go_mul x y sdiv 8"
      using that(5) i0 by (simp add: wr go_div_nonneg)
    moreover have "\<exists>bs. set_bit_at y col row imgBits = Inr bs"
      using set_bit_at_ok[OF i0 lt wr] by blast
    moreover have "\<exists>c. PrintImg_cell y row col imgBits = Inr c"
      using PrintImg_cell_ok[OF i0 lt wr] by blast
    ultimately show ?thesis by blast
  qed
  have two: "(\<exists>bs. pack_cols x y dst 0 imgBits = Inr bs) \<and> snd (PrintImg x y imgBits) = None"
    if "int (length imgBits) = go_mul x y sdiv 8" for dst imgBits
  proof -
    have eq: "8 * int (length imgBits) = x * y" using that full sd by simp
    have room: "x * y \<le> 8 * int (length imgBits)" using eq by simp
    have fit: "8 * int (length imgBits) \<le> maxInt" using eq assms(4) by simp
    have "\<exists>bs. pack_cols x y dst 0 imgBits = Inr bs"
      using pack_cols_ok[of 0 y x imgBits dst] y0 room fit by auto
    moreover have "snd (PrintImg x y imgBits) = None"
      using assms(1,2) room fit by (intro PrintImg_no_panic) simp_all
    ultimately show ?thesis by blast
  qed
  show ?thesis using one two by blast
qed

theorem accesses_in_bounds_witness:
  "(0::int) < 2 \<and> (0::int) < 8 \<and> (8::int) smod 8 = 0 \<and> (2::int) * 8 \<le> maxInt \<and>
   int (length [0, 0 :: byte]) = go_mul 2 8 sdiv 8 \<and>
   go_add (go_mul 1 8) 7 sdiv 8 < go_mul 2 8 sdiv 8 \<and>
   (\<exists>bs. set_bit_at 8 1 7 [0, 0] = Inr bs) \<and>
   (\<exists>c. PrintImg_cell 8 7 1 [0, 0] = Inr c) \<and>
   (\<exists>bs. pack_cols 2 8 one_black 0 [0, 0] = Inr bs) \<and>
   snd (PrintImg 2 8 [0, 0]) = None"
proof -
  have h1: "(0::int) < 2" and h2: "(0::int) < 8" and h3: "(8::int) smod 8 = 0" by simp_all
  have h4: "(2::int) * 8 \<le> maxInt" by (simp add: maxInt_def)
  have l: "int (length [0, 0 :: byte]) = go_mul 2 8 sdiv 8"
    by (simp add: go_mul_def wrap_def)
  have r: "(0::int) \<le> 1 \<and> (1::int) < 2 \<and> (0::int) \<le> 7 \<and> (7::int) < 8" by simp
  from accesses_in_bounds[OF h1 h2 h3 h4] l r
  have "go_add (go_mul 1 8) 7 sdiv 8 < go_mul 2 8 sdiv 8 \<and>
   (\<exists>bs. set_bit_at 8 1 7 [0, 0] = Inr bs) \<and>
   (\<exists>c. PrintImg_cell 8 7 1 [0, 0] = Inr c)"
    by blast
  moreover from accesses_in_bounds[OF h1 h2 h3 h4] l
  have "(\<exists>bs. pack_cols 2 8 one_black 0 [0, 0] = Inr bs) \<and> snd (PrintImg 2 8 [0, 0]) = None"
    by blast
  ultimately show ?thesis using h1 h2 h3 h4 l by blast
qed

section \<open>The dimension resolver\<close>

text \<open>
  Claim C4. \<open>ParseRatio("64x32")\<close> returns \<open>(64, 64)\<close>: both dimensions are parsed
  from the first of the two fields.
\<close>

theorem ParseRatio_64x32: "ParseRatio ''64x32'' = Inr (64, 64)"
  by code_simp

text \<open>
  Claim C5. \<open>ParseRatio\<close> is claimed to fail whenever either field is not a decimal
  integer. On \<open>"64xabc"\<close> the token splits into two fields and the second one is not
  an integer (\<open>Atoi\<close> rejects it), yet \<open>ParseRatio\<close> returns \<open>(64, 64)\<close> without an
  error: line 260 parses \<open>pixels[0]\<close> a second time where the second field was
  meant. \<open>"abc"\<close> and \<open>"64"\<close> do fail, with the error of line 254.
\<close>

theorem ParseRatio_second_field_unchecked:
  "ParseRatio ''64xabc'' = Inr (64, 64) \<and>
   length (Split (ToLower ''64xabc'') (CHR ''x'')) = 2 \<and>
   Atoi ''abc'' = Inl ErrSyntax \<and>
   ParseRatio ''abc'' = Inl Invalid_ratio_string \<and>
   ParseRatio ''64'' = Inl Invalid_ratio_string"
  by code_simp

text \<open>
  Claim C6. The preset \<open>profile\<close> resolves to the dimensions \<open>(120, 128)\<close> and the
  preset \<open>splash\<close> to \<open>(246, 128)\<close>.
\<close>

theorem presets_resolve:
  "ratio_switch ''profile'' = Inr (120, 128) \<and> ratio_switch ''splash'' = Inr (246, 128)"
  by (simp add: ratio_switch_def)

section \<open>The runs of \<open>main\<close>\<close>

text \<open>
  Claim C8. When the height that \<open>ParseRatio\<close> resolves from the ratio is not
  divisible by 8, the switch on the ratio ends the run at line 95: the exit status is
  1 and the run has done nothing but report, so \<open>ImgToBytes\<close> was not called and no
  emitter ran. And whatever ratio the switch lets pass, preset or parsed, the height
  it hands to \<open>ImgToBytes\<close> is divisible by 8.
\<close>

theorem bad_height_stops_run:
  "(ParseRatio (ratio e) = Inr (x, y) \<and> y smod 8 \<noteq> 0 \<longrightarrow>
      ratio_switch (ratio e) = Inl ([Log Log_height], 1) \<and>
      snd (main e) = 1 \<and> list_all is_report (fst (main e))) \<and>
   (ratio_switch r = Inr (x', y') \<longrightarrow> y' smod 8 = 0)"
proof (rule conjI)
  show "ParseRatio (ratio e) = Inr (x, y) \<and> y smod 8 \<noteq> 0 \<longrightarrow>
      ratio_switch (ratio e) = Inl ([Log Log_height], 1) \<and>
      snd (main e) = 1 \<and> list_all is_report (fst (main e))"
  proof (intro impI, elim conjE)
    assume p: "ParseRatio (ratio e) = Inr (x, y)" and h: "y smod 8 \<noteq> 0"
    have "ratio e \<noteq> ''profile''" "ratio e \<noteq> ''splash''" "ratio e \<noteq> []"
      using p ParseRatio_presets by auto
    then have s: "ratio_switch (ratio e) = Inl ([Log Log_height], 1)"
      using p h by (simp add: ratio_switch_def)
    then show "ratio_switch (ratio e) = Inl ([Log Log_height], 1) \<and>
      snd (main e) = 1 \<and> list_all is_report (fst (main e))"
      using main_stops_at_ratio[OF s] by simp
  qed
next
  show "ratio_switch r = Inr (x', y') \<longrightarrow> y' smod 8 = 0"
    by (intro impI ratio_switch_height)
qed

theorem bad_height_stops_run_witness:
  "ParseRatio (ratio (sample_env\<lparr>ratio := ''127x128''\<rparr>)) = Inr (127, 127) \<and>
   (127::int) smod 8 \<noteq> 0 \<and>
   main (sample_env\<lparr>ratio := ''127x128''\<rparr>) = ([Log Log_height], 1) \<and>
   ratio_switch ''profile'' = Inr (120, 128) \<and> (128::int) smod 8 = 0"
proof -
  have h1: "ParseRatio (ratio (sample_env\<lparr>ratio := ''127x128''\<rparr>)) = Inr (127, 127)"
    by code_simp
  have h2: "(127::int) smod 8 \<noteq> 0" by simp
  have h3: "ratio_switch ''profile'' = Inr (120, 128)" by (simp add: ratio_switch_def)
  note t = bad_height_stops_run[of "sample_env\<lparr>ratio := ''127x128''\<rparr>" 127 127
      "''profile''" 120 128]
  have s: "ratio_switch (ratio (sample_env\<lparr>ratio := ''127x128''\<rparr>)) = Inl ([Log Log_height], 1)"
    using t h1 h2 by blast
  have m: "main (sample_env\<lparr>ratio := ''127x128''\<rparr>) = ([Log Log_height], 1)"
    using s by (simp add: main_def sample_env_def LoadImg_def)
  have "(128::int) smod 8 = 0" using t h3 by blast
  then show ?thesis using h1 h2 h3 m by simp
qed

text \<open>
  Claim C9. When \<open>outMode\<close> is none of \<open>rice\<close>, \<open>bin\<close>, \<open>base64\<close> and \<open>none\<close>, the run
  ends with a status other than 0 and without any output: no file is created or
  written, and nothing is printed on standard output or by the preview. The switch
  on \<open>outMode\<close> itself logs the invalid mode, prints the usage text and exits with
  status 1, and that is how every run ends that gets as far as the switch.
\<close>

theorem invalid_outmode_stops_run:
  assumes "outMode e \<noteq> ''rice''" "outMode e \<noteq> ''bin''" "outMode e \<noteq> ''base64''"
    "outMode e \<noteq> ''none''"
  shows "snd (main e) \<noteq> 0 \<and> no_output (fst (main e)) \<and>
     (\<forall>imgBits. outMode_switch e imgBits =
        Inl ([Log (Log_outmode (outMode e)), Usage_text], 1)) \<and>
     (\<forall>infile src x y imgBits.
        Args e = [infile] \<and> os_Stat e infile \<and> LoadImg e infile = Some src \<and>
        ratio_switch (ratio e) = Inr (x, y) \<and> ImgToBytes e x y src = Inr imgBits \<longrightarrow>
        main e = ([Call_ImgToBytes x y, Log (Log_outmode (outMode e)), Usage_text], 1))"
proof -
  note sw = outMode_switch_invalid[OF assms]
  have a: "snd (main e) \<noteq> 0 \<and> no_output (fst (main e))"
  proof (cases "length (Args e) \<noteq> 1")
    case True
    then show ?thesis by (simp add: main_def)
  next
    case one: False
    show ?thesis
    proof (cases "os_Stat e (Args e ! 0)")
      case False
      then show ?thesis using one by (simp add: main_def)
    next
      case stat: True
      show ?thesis
      proof (cases "LoadImg e (Args e ! 0)")
        case None
        then show ?thesis using one stat by (simp add: main_def)
      next
        case (Some src)
        show ?thesis
        proof (cases "ratio_switch (ratio e)")
          case (Inl stop)
          then show ?thesis
            using one stat Some ratio_switch_stop[OF Inl] by (simp add: main_def)
        next
          case (Inr xy)
          obtain x y where xy: "xy = (x, y)" by (cases xy)
          show ?thesis
          proof (cases "ImgToBytes e x y src")
            case (Inl a)
            then show ?thesis
              using one stat Some Inr xy abort_outcome_stop[of x y a] by (simp add: main_def)
          next
            case bits: (Inr imgBits)
            then show ?thesis
              using one stat Some Inr xy sw by (simp add: main_def)
          qed
        qed
      qed
    qed
  qed
  have b: "main e = ([Call_ImgToBytes x y, Log (Log_outmode (outMode e)), Usage_text], 1)"
    if "Args e = [infile]" "os_Stat e infile" "LoadImg e infile = Some src"
       "ratio_switch (ratio e) = Inr (x, y)" "ImgToBytes e x y src = Inr imgBits"
    for infile src x y imgBits
    using that sw by (simp add: main_def)
  show ?thesis using a b sw by blast
qed

theorem invalid_outmode_stops_run_witness:
  "outMode (sample_env\<lparr>outMode := ''png''\<rparr>) \<noteq> ''rice'' \<and>
   outMode (sample_env\<lparr>outMode := ''png''\<rparr>) \<noteq> ''bin'' \<and>
   outMode (sample_env\<lparr>outMode := ''png''\<rparr>) \<noteq> ''base64'' \<and>
   outMode (sample_env\<lparr>outMode := ''png''\<rparr>) \<noteq> ''none'' \<and>
   main (sample_env\<lparr>outMode := ''png''\<rparr>) =
     ([Call_ImgToBytes 8 8, Log (Log_outmode ''png''), Usage_text], 1)"
proof -
  have h1: "outMode (sample_env\<lparr>outMode := ''png''\<rparr>) \<noteq> ''rice''"
    and h2: "outMode (sample_env\<lparr>outMode := ''png''\<rparr>) \<noteq> ''bin''"
    and h3: "outMode (sample_env\<lparr>outMode := ''png''\<rparr>) \<noteq> ''base64''"
    and h4: "outMode (sample_env\<lparr>outMode := ''png''\<rparr>) \<noteq> ''none''"
    by simp_all
  have q: "ratio_switch (ratio (sample_env\<lparr>outMode := ''png''\<rparr>)) = Inr (8, 8)"
    by code_simp
  have p: "Args (sample_env\<lparr>outMode := ''png''\<rparr>) = [''in.png''] \<and>
      os_Stat (sample_env\<lparr>outMode := ''png''\<rparr>) ''in.png'' \<and>
      LoadImg (sample_env\<lparr>outMode := ''png''\<rparr>) ''in.png'' = Some one_black \<and>
      ratio_switch (ratio (sample_env\<lparr>outMode := ''png''\<rparr>)) = Inr (8, 8)"
    using q by (simp add: sample_env_def LoadImg_def)
  have i: "ImgToBytes (sample_env\<lparr>outMode := ''png''\<rparr>) 8 8 one_black =
      Inr [16, 0, 0, 0, 0, 0, 0, 0]"
    by code_simp
  have "main (sample_env\<lparr>outMode := ''png''\<rparr>) =
     ([Call_ImgToBytes 8 8, Log (Log_outmode (outMode (sample_env\<lparr>outMode := ''png''\<rparr>))),
       Usage_text], 1)"
    using invalid_outmode_stops_run[OF h1 h2 h3 h4] p i by blast
  then show ?thesis using h1 h2 h3 h4 by simp
qed

end
